theory Spec2Isabelle
  imports Complex_Main
begin

section \<open>Python values used by the ledger\<close>

text \<open>
  The notebook \<^verbatim>\<open>Block_Chain_Code.ipynb\<close> defines three classes: \<^verbatim>\<open>Transaction\<close>,
  \<^verbatim>\<open>Block\<close> and \<^verbatim>\<open>BlockchainNode\<close>. Addresses are \<^verbatim>\<open>rsa.PublicKey(n, e)\<close> values,
  compared by their two integers. Python \<^verbatim>\<open>bytes\<close> and \<^verbatim>\<open>str\<close> are both lists of
  characters here; \<^verbatim>\<open>.encode()\<close> is the identity on them.

  A Python \<^verbatim>\<open>float\<close> is the real number it denotes: a finite double is a rational, and
  comparing two of them compares the numbers. Infinities and NaN are not modelled. The
  sum and difference of two floats are rounded, so \<^verbatim>\<open>+\<close> and \<^verbatim>\<open>-\<close> on floats are
  taken from the environment below rather than being the operations of \<open>real\<close>.
\<close>

datatype PublicKey = PublicKey int int

type_synonym bytes = string
type_synonym pyfloat = real

text \<open>
  Exceptions are values. \<open>VerificationError m\<close> stands for whatever \<^verbatim>\<open>rsa.verify\<close>
  raises, with \<open>m\<close> its \<^verbatim>\<open>str(e)\<close>; \<open>Exception m\<close> is \<^verbatim>\<open>raise Exception(m)\<close>;
  \<open>AttributeError a\<close> is the interpreter's error on reading the attribute \<open>a\<close> of a
  \<^verbatim>\<open>Transaction\<close> that was never set.
\<close>

datatype exn = VerificationError string | Exception string | AttributeError string

fun str_exn :: "exn \<Rightarrow> string" where
  "str_exn (VerificationError m) = m"
| "str_exn (Exception m) = m"
| "str_exn (AttributeError a) =
     [CHR 0x27] @ ''Transaction'' @ [CHR 0x27] @ '' object has no attribute ''
       @ [CHR 0x27] @ a @ [CHR 0x27]"

text \<open>
  The library functions the code calls but does not define are parameters:
  \<^verbatim>\<open>hashlib.sha256(b).hexdigest()\<close>, \<^verbatim>\<open>rsa.verify(message, signature, pub_key)\<close>
  (\<open>None\<close> when it returns, \<open>Some e\<close> when it raises \<open>e\<close>), \<^verbatim>\<open>str\<close> of a float,
  \<^verbatim>\<open>repr\<close> of a bytes object, and the float operations \<^verbatim>\<open>a + b\<close> and \<^verbatim>\<open>a - b\<close>.
\<close>

record extern =
  sha256_hexdigest :: "bytes \<Rightarrow> string"
  rsa_verify :: "bytes \<Rightarrow> bytes \<Rightarrow> PublicKey \<Rightarrow> exn option"
  str_float :: "pyfloat \<Rightarrow> string"
  repr_bytes :: "bytes \<Rightarrow> string"
  float_add :: "pyfloat \<Rightarrow> pyfloat \<Rightarrow> pyfloat"
  float_sub :: "pyfloat \<Rightarrow> pyfloat \<Rightarrow> pyfloat"

subsection \<open>\<^verbatim>\<open>str\<close> of integers, keys and lists\<close>

definition digit_char :: "nat \<Rightarrow> char" where
  "digit_char d = ''0123456789'' ! d"

function str_nat :: "nat \<Rightarrow> string" where
  "str_nat n = (if n < 10 then [digit_char n] else str_nat (n div 10) @ [digit_char (n mod 10)])"
  by pat_completeness auto
termination
  by (relation "measure id") auto

declare str_nat.simps [simp del]

definition str_int :: "int \<Rightarrow> string" where
  "str_int i = (if i < 0 then CHR ''-'' # str_nat (nat (- i)) else str_nat (nat i))"

text \<open>\<^verbatim>\<open>str(rsa.PublicKey(n, e))\<close> prints as \<^verbatim>\<open>PublicKey(n, e)\<close>, as in the notebook's output.\<close>

fun str_PublicKey :: "PublicKey \<Rightarrow> string" where
  "str_PublicKey (PublicKey n e) = ''PublicKey('' @ str_int n @ '', '' @ str_int e @ '')''"

fun join :: "string \<Rightarrow> string list \<Rightarrow> string" where
  "join sep [] = []"
| "join sep [x] = x"
| "join sep (x # y # ys) = x @ sep @ join sep (y # ys)"

definition endswith :: "string \<Rightarrow> string \<Rightarrow> bool" where
  "endswith x suffix = (length suffix \<le> length x \<and> drop (length x - length suffix) x = suffix)"

section \<open>Transaction\<close>

text \<open>
  The dataclass has four fields. \<^verbatim>\<open>validate\<close> creates a fifth attribute,
  \<^verbatim>\<open>validation_failure_reason\<close>, only in its \<^verbatim>\<open>except\<close> branch; \<open>None\<close> here means that
  the object has no such attribute, \<open>Some r\<close> that it holds the string \<open>r\<close>.
\<close>

record Transaction =
  sender_address :: PublicKey
  recipient_address :: PublicKey
  tx_value :: pyfloat
  signature :: bytes
  validation_failure_reason :: "string option"

text \<open>The generated \<^verbatim>\<open>__init__\<close>; \<^verbatim>\<open>signature\<close> defaults to \<^verbatim>\<open>b''\<close>.\<close>

definition Transaction_init :: "PublicKey \<Rightarrow> PublicKey \<Rightarrow> pyfloat \<Rightarrow> bytes \<Rightarrow> Transaction" where
  "Transaction_init sender recipient v sig =
     \<lparr>sender_address = sender, recipient_address = recipient, tx_value = v, signature = sig,
      validation_failure_reason = None\<rparr>"

definition get_core_data :: "extern \<Rightarrow> Transaction \<Rightarrow> bytes" where
  "get_core_data env self =
     str_PublicKey (sender_address self) @ str_PublicKey (recipient_address self)
       @ str_float env (tx_value self)"

text \<open>
  \<^verbatim>\<open>Transaction.validate\<close>, named \<open>validate_tx\<close> here since \<^verbatim>\<open>Block\<close> has a
  \<^verbatim>\<open>validate\<close> too. It returns the object as it is left, and the exception it re-raises
  if any.
\<close>

definition validate_tx :: "extern \<Rightarrow> Transaction \<Rightarrow> Transaction \<times> exn option" where
  "validate_tx env self =
     (case rsa_verify env (get_core_data env self) (signature self) (sender_address self) of
        None \<Rightarrow> (self, None)
      | Some e \<Rightarrow> (self\<lparr>validation_failure_reason := Some (str_exn e)\<rparr>, Some e))"

definition get_validation_failure_reason :: "Transaction \<Rightarrow> exn + string" where
  "get_validation_failure_reason self =
     (case validation_failure_reason self of
        None \<Rightarrow> Inl (AttributeError ''validation_failure_reason'')
      | Some r \<Rightarrow> Inr r)"

text \<open>The \<^verbatim>\<open>repr\<close> that \<^verbatim>\<open>@dataclass\<close> generates, and \<^verbatim>\<open>str\<close> of a list of them.\<close>

definition repr_Transaction :: "extern \<Rightarrow> Transaction \<Rightarrow> string" where
  "repr_Transaction env t =
     ''Transaction(sender_address='' @ str_PublicKey (sender_address t)
       @ '', recipient_address='' @ str_PublicKey (recipient_address t)
       @ '', value='' @ str_float env (tx_value t)
       @ '', signature='' @ repr_bytes env (signature t) @ '')''"

definition str_transactions :: "extern \<Rightarrow> Transaction list \<Rightarrow> string" where
  "str_transactions env ts = ''['' @ join '', '' (map (repr_Transaction env) ts) @ '']''"

section \<open>Block\<close>

record Block =
  num :: int
  timestamp :: pyfloat
  prev_block_hash :: string
  transactions :: "Transaction list"
  block_hash :: string
  nonce :: int

text \<open>The generated \<^verbatim>\<open>__init__\<close> with the defaults \<^verbatim>\<open>block_hash=""\<close> and \<^verbatim>\<open>nonce=0\<close>.\<close>

definition Block_init :: "int \<Rightarrow> pyfloat \<Rightarrow> string \<Rightarrow> Transaction list \<Rightarrow> Block" where
  "Block_init n ts prev txs =
     \<lparr>num = n, timestamp = ts, prev_block_hash = prev, transactions = txs,
      block_hash = [], nonce = 0\<rparr>"

definition get_header :: "extern \<Rightarrow> Block \<Rightarrow> bytes" where
  "get_header env self =
     str_int (num self) @ str_float env (timestamp self) @ prev_block_hash self
       @ str_int (nonce self) @ str_transactions env (transactions self)"

text \<open>\<^verbatim>\<open>hash\<close> returns the digest and the block with the digest stored in \<^verbatim>\<open>block_hash\<close>.\<close>

definition hash :: "extern \<Rightarrow> Block \<Rightarrow> string \<times> Block" where
  "hash env self =
     (let h = sha256_hexdigest env (get_header env self)
      in (h, self\<lparr>block_hash := h\<rparr>))"

definition validate :: "extern \<Rightarrow> Block \<Rightarrow> (string \<Rightarrow> bool) \<Rightarrow> bool \<times> Block" where
  "validate env self proof_of_work_func =
     (let (h, self') = hash env self in (proof_of_work_func h, self'))"

section \<open>BlockchainNode\<close>

definition REWARD_AMOUNT :: pyfloat where
  "REWARD_AMOUNT = 2.0"

record BlockchainNode =
  miner_address :: PublicKey
  blocks :: "Block list"
  pending_transactions :: "Transaction list"
  proof_of_work_func :: "string \<Rightarrow> bool"

text \<open>
  The body of the inner loop of \<^verbatim>\<open>get_balance\<close>: what one transaction does to the
  running balance of \<open>address\<close>.
\<close>

definition apply_transaction ::
  "extern \<Rightarrow> PublicKey \<Rightarrow> pyfloat \<Rightarrow> Transaction \<Rightarrow> pyfloat" where
  "apply_transaction env address balance transaction =
     (let balance1 = (if sender_address transaction = address
                      then float_sub env balance (tx_value transaction) else balance)
      in if recipient_address transaction = address
         then float_add env balance1 (tx_value transaction) else balance1)"

definition get_balance :: "extern \<Rightarrow> BlockchainNode \<Rightarrow> PublicKey \<Rightarrow> pyfloat" where
  "get_balance env self address =
     foldl (\<lambda>balance block. foldl (apply_transaction env address) balance (transactions block))
       0.0 (blocks self)"

subsection \<open>\<^verbatim>\<open>submit_transaction\<close>\<close>

text \<open>
  The result is the node, the transaction object as the call leaves it, the lines printed,
  and the exception that leaves the call, if any. \<open>submit_failed\<close> is the \<^verbatim>\<open>except\<close>
  block: it prints the six lines of \<open>failure_detail\<close>, reads the failure reason (which can
  itself raise) and ends in a bare \<^verbatim>\<open>raise\<close>.
\<close>

definition failure_detail :: "extern \<Rightarrow> Transaction \<Rightarrow> exn \<Rightarrow> string list" where
  "failure_detail env transaction e =
     [''Transaction submission failed: '' @ str_exn e,
      ''Transaction Details:'',
      ''Sender Public Key: '' @ str_PublicKey (sender_address transaction),
      ''Recipient Public Key: '' @ str_PublicKey (recipient_address transaction),
      ''Value: '' @ str_float env (tx_value transaction),
      ''Signature: '' @ repr_bytes env (signature transaction)]"

definition submit_failed ::
  "extern \<Rightarrow> BlockchainNode \<Rightarrow> Transaction \<Rightarrow> exn
     \<Rightarrow> BlockchainNode \<times> Transaction \<times> string list \<times> exn option" where
  "submit_failed env self transaction e =
     (let out = failure_detail env transaction e
      in case get_validation_failure_reason transaction of
           Inl attribute_error \<Rightarrow> (self, transaction, out, Some attribute_error)
         | Inr reason \<Rightarrow>
             (self, transaction,
              out @ (if reason \<noteq> [] then [''Validation Failure Reason: '' @ reason] else []),
              Some e))"

definition submit_transaction ::
  "extern \<Rightarrow> BlockchainNode \<Rightarrow> Transaction
     \<Rightarrow> BlockchainNode \<times> Transaction \<times> string list \<times> exn option" where
  "submit_transaction env self transaction =
     (case validate_tx env transaction of
        (transaction1, Some e) \<Rightarrow> submit_failed env self transaction1 e
      | (transaction1, None) \<Rightarrow>
          (let sender_balance = get_balance env self (sender_address transaction1)
           in if sender_balance < tx_value transaction1
              then submit_failed env self transaction1
                     (Exception (''Insufficient tokens available (''
                        @ str_float env (tx_value transaction1) @ '' required, ''
                        @ str_float env sender_balance @ '' available)''))
              else (self\<lparr>pending_transactions := pending_transactions self @ [transaction1]\<rparr>,
                    transaction1, [''Transaction submitted successfully.''], None)))"

subsection \<open>\<^verbatim>\<open>mine_block\<close>\<close>

text \<open>
  The nonce search \<^verbatim>\<open>while not new_block.validate(...)\<close> has no bound; a search that
  never ends is the value \<open>None\<close>.
\<close>

partial_function (option) mine_loop ::
  "extern \<Rightarrow> (string \<Rightarrow> bool) \<Rightarrow> Block \<Rightarrow> int \<Rightarrow> Block option" where
  "mine_loop env pow new_block proof =
     (if fst (validate env new_block pow) then Some (snd (validate env new_block pow))
      else mine_loop env pow ((snd (validate env new_block pow))\<lparr>nonce := proof + 1\<rparr>)
             (proof + 1))"

declare mine_loop.simps [code]

definition reward_transaction :: "BlockchainNode \<Rightarrow> Transaction" where
  "reward_transaction self =
     Transaction_init (PublicKey 0 0) (miner_address self) REWARD_AMOUNT []"

text \<open>
  \<open>now\<close> is the value \<^verbatim>\<open>time.time()\<close> returns. \<^verbatim>\<open>prev_block.hash()\<close> stores the digest
  in the last block of the chain, so the chain that is returned holds that block updated.
\<close>

definition mine_block ::
  "extern \<Rightarrow> pyfloat \<Rightarrow> BlockchainNode \<Rightarrow> (BlockchainNode \<times> string list) option" where
  "mine_block env now self =
     (let (blocks1, prev_hash, n) =
            (if length (blocks self) \<le> 0 then (blocks self, ''-'', 0)
             else (let (h, prev_block) = hash env (last (blocks self))
                   in (butlast (blocks self) @ [prev_block], h, num prev_block + 1)));
          new_block = Block_init n now prev_hash (pending_transactions self)
      in case mine_loop env (proof_of_work_func self) new_block 0 of
           None \<Rightarrow> None
         | Some mined \<Rightarrow>
             Some (self\<lparr>blocks := blocks1 @ [mined],
                        pending_transactions := [] @ [reward_transaction self]\<rparr>,
                   [''Successfully mined new block '' @ str_int (num mined) @ ''!'']))"

definition BlockchainNode_init ::
  "extern \<Rightarrow> PublicKey \<Rightarrow> pyfloat \<Rightarrow> (BlockchainNode \<times> string list) option" where
  "BlockchainNode_init env miner now =
     mine_block env now
       \<lparr>miner_address = miner, blocks = [], pending_transactions = [],
        proof_of_work_func = (\<lambda>x. endswith x ''000'')\<rparr>"

subsection \<open>\<^verbatim>\<open>validate_chain\<close>\<close>

text \<open>
  The \<^verbatim>\<open>for i in range(1, len(self.blocks))\<close> loop, from index \<open>i\<close> on. Both
  \<^verbatim>\<open>prev_block.hash()\<close> and \<^verbatim>\<open>current_block.validate(...)\<close> store a digest in the
  block they are called on, so the list of blocks is threaded through. The result is the
  boolean returned, the line printed and the blocks as the call leaves them.
\<close>

function validate_chain_loop ::
  "extern \<Rightarrow> (string \<Rightarrow> bool) \<Rightarrow> nat \<Rightarrow> Block list \<Rightarrow> bool \<times> string list \<times> Block list" where
  "validate_chain_loop env pow i bs =
     (if i < length bs then
        (let prev_block = snd (hash env (bs ! (i - 1)));
             h = fst (hash env (bs ! (i - 1)));
             bs1 = bs[i - 1 := prev_block];
             current_block = bs1 ! i
         in if prev_block_hash current_block \<noteq> h
            then (False,
                  [''Blockchain validation failed at block '' @ str_int (num current_block)
                     @ '': Previous block hash mismatch.''],
                  bs1)
            else (let ok = fst (validate env current_block pow);
                      bs2 = bs1[i := snd (validate env current_block pow)]
                  in if \<not> ok
                     then (False,
                           [''Blockchain validation failed at block ''
                              @ str_int (num current_block) @ '': Invalid proof-of-work.''],
                           bs2)
                     else validate_chain_loop env pow (i + 1) bs2))
      else (True,
            [''Successfully validated chain of size '' @ str_int (int (length bs)) @ ''!''],
            bs))"
  by pat_completeness auto
termination
  by (relation "measure (\<lambda>(env, pow, i, bs). length bs - i)") auto

declare validate_chain_loop.simps [simp del]

definition validate_chain :: "extern \<Rightarrow> BlockchainNode \<Rightarrow> bool \<times> string list \<times> BlockchainNode" where
  "validate_chain env self =
     (case validate_chain_loop env (proof_of_work_func self) 1 (blocks self) of
        (ok, out, bs) \<Rightarrow> (ok, out, self\<lparr>blocks := bs\<rparr>))"

section \<open>Reachable nodes\<close>

text \<open>
  A caller constructs a node and then calls \<^verbatim>\<open>submit_transaction\<close> and \<^verbatim>\<open>mine_block\<close> in
  any order, catching what \<^verbatim>\<open>submit_transaction\<close> raises, as the notebook's cells do.
  \<open>node_after env miner now calls\<close> is the node such a run ends in, or \<open>None\<close> when one
  of its nonce searches never ends.

  The node keeps the very objects it is given: a \<^verbatim>\<open>Block\<close> holds the list that was the
  pool, and the pool holds the caller's \<^verbatim>\<open>Transaction\<close> objects. \<^verbatim>\<open>mine_block\<close> rebinds the
  pool to a new list right after appending the block, and the only attribute the two
  methods ever write in a transaction is \<^verbatim>\<open>validation_failure_reason\<close>, which is in no
  \<^verbatim>\<open>repr\<close>, header or comparison. So copies of the values behave as the shared objects do.
\<close>

datatype call = Submit Transaction | Mine pyfloat

fun step :: "extern \<Rightarrow> call \<Rightarrow> BlockchainNode \<Rightarrow> BlockchainNode option" where
  "step env (Submit transaction) self = Some (fst (submit_transaction env self transaction))"
| "step env (Mine now) self = map_option fst (mine_block env now self)"

fun run :: "extern \<Rightarrow> call list \<Rightarrow> BlockchainNode \<Rightarrow> BlockchainNode option" where
  "run env [] self = Some self"
| "run env (c # cs) self =
     (case step env c self of None \<Rightarrow> None | Some self' \<Rightarrow> run env cs self')"

definition node_after ::
  "extern \<Rightarrow> PublicKey \<Rightarrow> pyfloat \<Rightarrow> call list \<Rightarrow> BlockchainNode option" where
  "node_after env miner now calls =
     (case BlockchainNode_init env miner now of
        None \<Rightarrow> None
      | Some (self, out) \<Rightarrow> run env calls self)"

text \<open>
  A stand-in for the library functions, used to run the definitions on concrete inputs:
  its digest ends in \<open>000\<close> exactly when the header contains the digit \<open>3\<close>, so each nonce
  search below takes three increments; its signature check accepts the signature \<open>ok\<close>;
  its float operations are exact, as those of Python are on the small integers used.
\<close>

definition toy_env :: extern where
  "toy_env =
     \<lparr>sha256_hexdigest = (\<lambda>b. if CHR ''3'' \<in> set b then ''ab000'' else ''ab''),
      rsa_verify = (\<lambda>message sig key.
         if sig = ''ok'' then None else Some (VerificationError ''Verification failed'')),
      str_float = (\<lambda>x. if x = 0 then ''0.0'' else if x = 1 then ''1.0''
         else if x = 2 then ''2.0'' else if x = 5 then ''5.0'' else ''1.5''),
      repr_bytes = (\<lambda>b. ''b:'' @ b),
      float_add = (\<lambda>a b. a + b),
      float_sub = (\<lambda>a b. a - b)\<rparr>"

text \<open>The inputs of the concrete runs below.\<close>

definition alice :: PublicKey where
  "alice = PublicKey 7 5"

definition bob :: PublicKey where
  "bob = PublicKey 8 5"

definition demo_calls :: "call list" where
  "demo_calls = [Mine 1, Submit (Transaction_init alice bob 1 ''ok''), Mine 1]"

definition demo_node :: BlockchainNode where
  "demo_node =
     \<lparr>miner_address = alice,
      blocks =
        [\<lparr>num = 0, timestamp = 1, prev_block_hash = ''-'', transactions = [],
          block_hash = ''ab000'', nonce = 3\<rparr>,
         \<lparr>num = 1, timestamp = 1, prev_block_hash = ''ab000'',
          transactions = [Transaction_init (PublicKey 0 0) alice 2 []],
          block_hash = ''ab000'', nonce = 3\<rparr>,
         \<lparr>num = 2, timestamp = 1, prev_block_hash = ''ab000'',
          transactions = [Transaction_init (PublicKey 0 0) alice 2 [],
                          Transaction_init alice bob 1 ''ok''],
          block_hash = ''ab000'', nonce = 3\<rparr>],
      pending_transactions = [Transaction_init (PublicKey 0 0) alice 2 []],
      proof_of_work_func = (\<lambda>x. endswith x ''000'')\<rparr>"

definition genesis_node :: BlockchainNode where
  "genesis_node =
     \<lparr>miner_address = alice,
      blocks =
        [\<lparr>num = 0, timestamp = 1, prev_block_hash = ''-'', transactions = [],
          block_hash = ''ab000'', nonce = 3\<rparr>],
      pending_transactions = [Transaction_init (PublicKey 0 0) alice 2 []],
      proof_of_work_func = (\<lambda>x. endswith x ''000'')\<rparr>"

definition second_node :: BlockchainNode where
  "second_node =
     \<lparr>miner_address = alice,
      blocks =
        [\<lparr>num = 0, timestamp = 1, prev_block_hash = ''-'', transactions = [],
          block_hash = ''ab000'', nonce = 3\<rparr>,
         \<lparr>num = 1, timestamp = 5, prev_block_hash = ''ab000'',
          transactions = [Transaction_init (PublicKey 0 0) alice 2 []],
          block_hash = ''ab000'', nonce = 3\<rparr>],
      pending_transactions = [Transaction_init (PublicKey 0 0) alice 2 []],
      proof_of_work_func = (\<lambda>x. endswith x ''000'')\<rparr>"

definition good_tx :: Transaction where
  "good_tx = Transaction_init alice bob 1 ''ok''"

definition forged_tx :: Transaction where
  "forged_tx = Transaction_init alice bob 1 ''bad''"

definition costly_tx :: Transaction where
  "costly_tx = Transaction_init alice bob 5 ''ok''"

text \<open>The chain of \<open>demo_node\<close> with the nonce of its first block set back to 0.\<close>

definition tampered_node :: BlockchainNode where
  "tampered_node =
     demo_node\<lparr>blocks := (blocks demo_node)[0 := (blocks demo_node ! 0)\<lparr>nonce := 0\<rparr>]\<rparr>"

section \<open>Float arithmetic of Python\<close>

text \<open>
  Python's \<^verbatim>\<open>a + b\<close> and \<^verbatim>\<open>a - b\<close> on floats are the IEEE 754 binary64 operations: the
  exact result rounded to the nearest number with a 53-bit significand, a tie going to the
  even significand. \<open>round_binary64\<close> is that rounding for results below \<open>2 ^ 1024\<close> in
  magnitude (the exact sum or difference of two doubles that is too small to be a normal
  number is a double already, and is returned as it is).
\<close>

definition round_half_even :: "real \<Rightarrow> int" where
  "round_half_even y =
     (let f = \<lfloor>y\<rfloor>
      in if y - of_int f < 1 / 2 then f
         else if 1 / 2 < y - of_int f then f + 1
         else if even f then f else f + 1)"

definition round_binary64 :: "real \<Rightarrow> real" where
  "round_binary64 x =
     (if x = 0 then 0
      else (let e = \<lfloor>log 2 \<bar>x\<bar>\<rfloor> - 52
            in of_int (round_half_even (x / 2 powi e)) * 2 powi e))"

text \<open>
  The stand-in environment with the float operations of Python, the double that Python
  writes \<^verbatim>\<open>0.2\<close>, and a run in which the miner sends it twice.
\<close>

definition ieee_env :: extern where
  "ieee_env = toy_env\<lparr>float_add := (\<lambda>a b. round_binary64 (a + b)),
                        float_sub := (\<lambda>a b. round_binary64 (a - b))\<rparr>"

definition float_0_2 :: pyfloat where
  "float_0_2 = 3602879701896397 / 18014398509481984"

definition float_calls :: "call list" where
  "float_calls =
     [Mine 1, Submit (Transaction_init alice bob float_0_2 ''ok''),
      Submit (Transaction_init alice bob float_0_2 ''ok''), Mine 1]"

definition float_node :: BlockchainNode where
  "float_node =
     \<lparr>miner_address = alice,
      blocks =
        [\<lparr>num = 0, timestamp = 1, prev_block_hash = ''-'', transactions = [],
          block_hash = ''ab000'', nonce = 3\<rparr>,
         \<lparr>num = 1, timestamp = 1, prev_block_hash = ''ab000'',
          transactions = [Transaction_init (PublicKey 0 0) alice 2 []],
          block_hash = ''ab000'', nonce = 3\<rparr>,
         \<lparr>num = 2, timestamp = 1, prev_block_hash = ''ab000'',
          transactions = [Transaction_init (PublicKey 0 0) alice 2 [],
                          Transaction_init alice bob float_0_2 ''ok'',
                          Transaction_init alice bob float_0_2 ''ok''],
          block_hash = ''ab000'', nonce = 3\<rparr>],
      pending_transactions = [Transaction_init (PublicKey 0 0) alice 2 []],
      proof_of_work_func = (\<lambda>x. endswith x ''000'')\<rparr>"

section \<open>Predicates on chains\<close>

text \<open>Every block but the first stores the digest of the block before it.\<close>

definition linked :: "extern \<Rightarrow> Block list \<Rightarrow> bool" where
  "linked env bs = (\<forall>i. 0 < i \<and> i < length bs \<longrightarrow>
      prev_block_hash (bs ! i) = fst (hash env (bs ! (i - 1))))"

text \<open>Every block of the chain passes the difficulty predicate of the node.\<close>

definition pow_ok :: "extern \<Rightarrow> BlockchainNode \<Rightarrow> bool" where
  "pow_ok env self = (\<forall>b \<in> set (blocks self). proof_of_work_func self (fst (hash env b)))"

text \<open>
  What \<^verbatim>\<open>validate_chain\<close> checks at index \<open>i\<close>, the two lines it can print on a failure,
  and a block without its stored digest.
\<close>

definition uncached :: "Block \<Rightarrow> Block" where
  "uncached b = b\<lparr>block_hash := []\<rparr>"

definition link_at :: "extern \<Rightarrow> Block list \<Rightarrow> nat \<Rightarrow> bool" where
  "link_at env bs i = (prev_block_hash (bs ! i) = fst (hash env (bs ! (i - 1))))"

definition pow_at :: "extern \<Rightarrow> (string \<Rightarrow> bool) \<Rightarrow> Block list \<Rightarrow> nat \<Rightarrow> bool" where
  "pow_at env pow bs i = pow (fst (hash env (bs ! i)))"

definition mismatch_line :: "Block \<Rightarrow> string list" where
  "mismatch_line b = [''Blockchain validation failed at block '' @ str_int (num b)
                     @ '': Previous block hash mismatch.'']"

definition pow_line :: "Block \<Rightarrow> string list" where
  "pow_line b = [''Blockchain validation failed at block '' @ str_int (num b)
                     @ '': Invalid proof-of-work.'']"

text \<open>
  What the loop of \<^verbatim>\<open>validate_chain\<close>, started at index \<open>i\<close>, has done when it returns:
  only stored digests have changed; it returns \<open>True\<close> exactly when every index from \<open>i\<close>
  on passes both checks; otherwise it stopped at the first index that fails one, printed
  the line of the check that failed, and touched no later block.
\<close>

definition loop_post ::
  "extern \<Rightarrow> (string \<Rightarrow> bool) \<Rightarrow> nat \<Rightarrow> Block list \<Rightarrow> bool \<times> string list \<times> Block list \<Rightarrow> bool" where
  "loop_post env pow i bs res =
     (case res of (ok, out, bs') \<Rightarrow>
        map uncached bs' = map uncached bs \<and>
        ok = (\<forall>k. i \<le> k \<and> k < length bs \<longrightarrow> link_at env bs k \<and> pow_at env pow bs k) \<and>
        (ok \<longrightarrow> out = [''Successfully validated chain of size '' @ str_int (int (length bs)) @ ''!'']) \<and>
        (\<not> ok \<longrightarrow>
           (\<exists>k. i \<le> k \<and> k < length bs \<and>
                (\<forall>j. i \<le> j \<and> j < k \<longrightarrow> link_at env bs j \<and> pow_at env pow bs j) \<and>
                (if \<not> link_at env bs k then out = mismatch_line (bs ! k)
                 else \<not> pow_at env pow bs k \<and> out = pow_line (bs ! k)) \<and>
                (\<forall>j. k < j \<and> j < length bs \<longrightarrow> bs' ! j = bs ! j))))"

section \<open>Balances\<close>

text \<open>
  All transactions of the chain in order, and the addresses that occur in them, each once.
\<close>

definition all_transactions :: "BlockchainNode \<Rightarrow> Transaction list" where
  "all_transactions self = concat (map transactions (blocks self))"

definition addresses :: "BlockchainNode \<Rightarrow> PublicKey list" where
  "addresses self =
     remdups (concat (map (\<lambda>t. [sender_address t, recipient_address t]) (all_transactions self)))"

text \<open>
  \<open>rounding_free env self address\<close>: none of the subtractions and additions that
  \<^verbatim>\<open>get_balance(address)\<close> performs on this chain is rounded. \<open>delta a t\<close> is what the
  transaction \<open>t\<close> adds to the balance of \<open>a\<close> in exact arithmetic.
\<close>

definition exact_step :: "extern \<Rightarrow> PublicKey \<Rightarrow> pyfloat \<Rightarrow> Transaction \<Rightarrow> bool" where
  "exact_step env address balance t =
     ((sender_address t = address \<longrightarrow>
         float_sub env balance (tx_value t) = balance - tx_value t) \<and>
      (recipient_address t = address \<longrightarrow>
         (let balance1 = (if sender_address t = address
                          then float_sub env balance (tx_value t) else balance)
          in float_add env balance1 (tx_value t) = balance1 + tx_value t)))"

fun exact_from :: "extern \<Rightarrow> PublicKey \<Rightarrow> pyfloat \<Rightarrow> Transaction list \<Rightarrow> bool" where
  "exact_from env address balance [] = True"
| "exact_from env address balance (t # ts) =
     (exact_step env address balance t \<and>
      exact_from env address (apply_transaction env address balance t) ts)"

definition rounding_free :: "extern \<Rightarrow> BlockchainNode \<Rightarrow> PublicKey \<Rightarrow> bool" where
  "rounding_free env self address = exact_from env address 0 (all_transactions self)"

definition delta :: "PublicKey \<Rightarrow> Transaction \<Rightarrow> real" where
  "delta a t = (if recipient_address t = a then tx_value t else 0)
               - (if sender_address t = a then tx_value t else 0)"

section \<open>Hashing and the nonce search\<close>

lemma fst_hash: "fst (hash env b) = sha256_hexdigest env (get_header env b)"
  by (simp add: hash_def Let_def)

lemma snd_hash: "snd (hash env b) = b\<lparr>block_hash := sha256_hexdigest env (get_header env b)\<rparr>"
  by (simp add: hash_def Let_def)

lemma get_header_block_hash [simp]: "get_header env (b\<lparr>block_hash := x\<rparr>) = get_header env b"
  by (simp add: get_header_def)

lemma fst_hash_cached [simp]: "fst (hash env (snd (hash env b))) = fst (hash env b)"
  by (simp add: fst_hash snd_hash)

lemma fst_validate: "fst (validate env b pow) = pow (fst (hash env b))"
  by (simp add: validate_def split_def Let_def)

lemma snd_validate: "snd (validate env b pow) = snd (hash env b)"
  by (simp add: validate_def split_def Let_def)

lemma mine_loop_result:
  assumes "mine_loop env pow b p = Some b'"
  shows "pow (fst (hash env b')) \<and> block_hash b' = fst (hash env b')
         \<and> num b' = num b \<and> timestamp b' = timestamp b
         \<and> prev_block_hash b' = prev_block_hash b \<and> transactions b' = transactions b"
proof -
  define P where "P = (\<lambda>(env::extern) (pow::string \<Rightarrow> bool) (b::Block) (p::int) (b'::Block).
      pow (fst (hash env b')) \<and> block_hash b' = fst (hash env b')
      \<and> num b' = num b \<and> timestamp b' = timestamp b
      \<and> prev_block_hash b' = prev_block_hash b \<and> transactions b' = transactions b)"
  have "P env pow b p b'"
  proof (rule mine_loop.raw_induct [where P = P, OF _ assms])
    fix f env pow blk p r
    assume IH: "\<And>env pow blk p r. f env pow blk p = Some r \<Longrightarrow> P env pow blk p r"
      and eq: "(if fst (validate env blk pow) then Some (snd (validate env blk pow))
                else f env pow ((snd (validate env blk pow))\<lparr>nonce := p + 1\<rparr>) (p + 1)) = Some r"
    show "P env pow blk p r"
    proof (cases "fst (validate env blk pow)")
      case True
      with eq have "r = snd (hash env blk)" by (simp add: snd_validate)
      with True show ?thesis by (simp add: P_def fst_validate snd_hash fst_hash)
    next
      case False
      with eq have "f env pow ((snd (validate env blk pow))\<lparr>nonce := p + 1\<rparr>) (p + 1) = Some r"
        by simp
      from IH [OF this] show ?thesis by (simp add: P_def snd_validate snd_hash)
    qed
  qed
  then show ?thesis by (simp add: P_def)
qed

lemma butlast_snoc_update: "bs \<noteq> [] \<Longrightarrow> butlast bs @ [x] = bs[length bs - 1 := x]"
  by (induction bs) (auto split: nat.splits)

lemma mine_block_result:
  assumes "mine_block env now self = Some (self', out)"
  shows "\<exists>mined. mine_loop env (proof_of_work_func self)
            (Block_init (if blocks self = [] then 0 else num (last (blocks self)) + 1) now
               (if blocks self = [] then ''-'' else fst (hash env (last (blocks self))))
               (pending_transactions self)) 0 = Some mined
          \<and> self' = self\<lparr>blocks := (if blocks self = [] then []
                                      else (blocks self)[length (blocks self) - 1 :=
                                              snd (hash env (last (blocks self)))]) @ [mined],
                          pending_transactions := [reward_transaction self]\<rparr>
          \<and> out = [''Successfully mined new block '' @ str_int (num mined) @ ''!'']"
  using assms
  by (auto simp: mine_block_def Let_def split_def snd_hash butlast_snoc_update
           split: option.splits if_splits)

section \<open>Running the definitions\<close>

text \<open>
  Rewrite rules that unfold a recursive definition only when its test is decided, so that
  the simplifier evaluates closed terms and leaves open ones alone.
\<close>

lemma mine_loop_found:
  "pow (sha256_hexdigest env (get_header env b)) \<Longrightarrow>
   mine_loop env pow b p = Some (b\<lparr>block_hash := sha256_hexdigest env (get_header env b)\<rparr>)"
  by (subst mine_loop.simps) (simp add: fst_validate snd_validate fst_hash snd_hash)

lemma mine_loop_next:
  "\<not> pow (sha256_hexdigest env (get_header env b)) \<Longrightarrow>
   mine_loop env pow b p =
     mine_loop env pow (b\<lparr>block_hash := sha256_hexdigest env (get_header env b), nonce := p + 1\<rparr>) (p + 1)"
  by (subst mine_loop.simps) (simp add: fst_validate snd_validate fst_hash snd_hash)

lemma endswith_Nil: "endswith [] suffix = (suffix = [])"
  by (auto simp: endswith_def)

lemma endswith_Cons: "endswith (c # cs) suffix = (c # cs = suffix \<or> endswith cs suffix)"
proof (cases "length suffix \<le> length cs")
  case True
  then have "c # cs \<noteq> suffix" by auto
  with True show ?thesis by (simp add: endswith_def Suc_diff_le)
next
  case False
  then show ?thesis by (auto simp: endswith_def)
qed

lemma str_nat_digit: "n < 10 \<Longrightarrow> str_nat n = [digit_char n]"
  by (simp add: str_nat.simps)

lemma str_nat_more: "\<not> n < 10 \<Longrightarrow> str_nat n = str_nat (n div 10) @ [digit_char (n mod 10)]"
  by (subst str_nat.simps) simp

text \<open>
  The nonce search returns as soon as some nonce from the current one on gives a digest
  that passes; construction returns if such a nonce exists for the genesis header.
\<close>

lemma mine_loop_returns:
  assumes "pow (fst (hash env (b\<lparr>nonce := p + int k\<rparr>)))" and "nonce b = p"
  shows "\<exists>b'. mine_loop env pow b p = Some b'"
  using assms
proof (induction k arbitrary: b p)
  case 0
  then have "get_header env (b\<lparr>nonce := p + int 0\<rparr>) = get_header env b"
    by (simp add: get_header_def)
  with 0 have "pow (sha256_hexdigest env (get_header env b))" by (simp add: fst_hash)
  then show ?case by (simp add: mine_loop_found)
next
  case (Suc k)
  show ?case
  proof (cases "pow (sha256_hexdigest env (get_header env b))")
    case True
    then show ?thesis by (simp add: mine_loop_found)
  next
    case False
    let ?b = "b\<lparr>block_hash := sha256_hexdigest env (get_header env b), nonce := p + 1\<rparr>"
    have "get_header env (?b\<lparr>nonce := p + 1 + int k\<rparr>) = get_header env (b\<lparr>nonce := p + int (Suc k)\<rparr>)"
      by (simp add: get_header_def add.assoc)
    with Suc.prems(1) have "pow (fst (hash env (?b\<lparr>nonce := p + 1 + int k\<rparr>)))"
      by (simp add: fst_hash)
    moreover have "nonce ?b = p + 1" by simp
    ultimately have "\<exists>b'. mine_loop env pow ?b (p + 1) = Some b'" by (rule Suc.IH)
    then obtain b' where "mine_loop env pow ?b (p + 1) = Some b'" ..
    moreover from False have "mine_loop env pow b p = mine_loop env pow ?b (p + 1)"
      by (rule mine_loop_next)
    ultimately show ?thesis by simp
  qed
qed

lemma BlockchainNode_init_returns:
  assumes "endswith (fst (hash env ((Block_init 0 now ''-'' [])\<lparr>nonce := int k\<rparr>))) ''000''"
  shows "\<exists>self out. BlockchainNode_init env miner now = Some (self, out)"
proof -
  have "nonce (Block_init 0 now ''-'' []) = 0" by (simp add: Block_init_def)
  with mine_loop_returns [where pow = "\<lambda>x. endswith x ''000''" and env = env
      and b = "Block_init 0 now ''-'' []" and p = 0 and k = k] assms
  obtain b' where "mine_loop env (\<lambda>x. endswith x ''000'') (Block_init 0 now ''-'' []) 0 = Some b'"
    by auto
  then show ?thesis
    by (simp add: BlockchainNode_init_def mine_block_def)
qed

lemmas eval_defs =
  node_after_def BlockchainNode_init_def mine_block_def Block_init_def mine_loop_found
  mine_loop_next validate_def hash_def get_header_def toy_env_def str_int_def str_nat_digit
  str_nat_more digit_char_def str_transactions_def repr_Transaction_def Transaction_init_def
  endswith_Nil endswith_Cons submit_transaction_def submit_failed_def failure_detail_def
  validate_tx_def
  get_core_data_def get_balance_def apply_transaction_def
  get_validation_failure_reason_def reward_transaction_def
  REWARD_AMOUNT_def alice_def bob_def demo_calls_def demo_node_def Let_def

lemma demo_run: "node_after toy_env alice 1 demo_calls = Some demo_node"
  by (simp add: eval_defs)

section \<open>Chain linkage\<close>

lemma fst_hash_nth_update:
  "j < length bs \<Longrightarrow> fst (hash env (bs[k := snd (hash env (bs ! k))] ! j)) = fst (hash env (bs ! j))"
  by (cases "j = k") simp_all

lemma prev_nth_update:
  "j < length bs \<Longrightarrow> prev_block_hash (bs[k := snd (hash env (bs ! k))] ! j) = prev_block_hash (bs ! j)"
  by (cases "j = k") (simp_all add: snd_hash)

lemma linked_mine:
  assumes "mine_block env now self = Some (self', out)" and "linked env (blocks self)"
  shows "blocks self' \<noteq> [] \<and> linked env (blocks self')"
proof -
  from mine_block_result [OF assms(1)] obtain mined where
    m: "mine_loop env (proof_of_work_func self)
            (Block_init (if blocks self = [] then 0 else num (last (blocks self)) + 1) now
               (if blocks self = [] then ''-'' else fst (hash env (last (blocks self))))
               (pending_transactions self)) 0 = Some mined"
    and s: "self' = self\<lparr>blocks := (if blocks self = [] then []
                                      else (blocks self)[length (blocks self) - 1 :=
                                              snd (hash env (last (blocks self)))]) @ [mined],
                          pending_transactions := [reward_transaction self]\<rparr>"
    by blast
  from mine_loop_result [OF m] have
    prev: "prev_block_hash mined = (if blocks self = [] then ''-'' else fst (hash env (last (blocks self))))"
    by (simp add: Block_init_def)
  show ?thesis
  proof (cases "blocks self = []")
    case True
    with s show ?thesis by (simp add: linked_def)
  next
    case False
    let ?bs = "blocks self"
    let ?k = "length ?bs - 1"
    have lastk: "last ?bs = ?bs ! ?k" using False by (simp add: last_conv_nth)
    let ?bs1 = "?bs[?k := snd (hash env (?bs ! ?k))]"
    from s False lastk have b': "blocks self' = ?bs1 @ [mined]" by simp
    have "linked env (?bs1 @ [mined])"
      unfolding linked_def
    proof (intro allI impI)
      fix i assume i: "0 < i \<and> i < length (?bs1 @ [mined])"
      show "prev_block_hash ((?bs1 @ [mined]) ! i) = fst (hash env ((?bs1 @ [mined]) ! (i - 1)))"
      proof (cases "i < length ?bs")
        case True
        with i assms(2) have "prev_block_hash (?bs ! i) = fst (hash env (?bs ! (i - 1)))"
          by (simp add: linked_def)
        moreover from True i have "i - 1 < length ?bs" by simp
        ultimately show ?thesis using True
          by (simp add: nth_append fst_hash_nth_update prev_nth_update)
      next
        case False
        with i have ieq: "i = length ?bs" by simp
        with prev \<open>?bs \<noteq> []\<close> lastk show ?thesis
          by (simp add: nth_append fst_hash_nth_update)
      qed
    qed
    with b' show ?thesis by simp
  qed
qed

lemma submit_blocks: "blocks (fst (submit_transaction env self tx)) = blocks self"
  by (simp add: submit_transaction_def submit_failed_def Let_def split: prod.splits option.splits sum.splits)

lemma linked_run:
  "run env calls self = Some self' \<Longrightarrow> blocks self \<noteq> [] \<Longrightarrow> linked env (blocks self)
     \<Longrightarrow> blocks self' \<noteq> [] \<and> linked env (blocks self')"
proof (induction calls arbitrary: self)
  case Nil
  then show ?case by simp
next
  case (Cons c cs)
  from Cons.prems(1) obtain s1 where st: "step env c self = Some s1" and r: "run env cs s1 = Some self'"
    by (auto split: option.splits)
  have "blocks s1 \<noteq> [] \<and> linked env (blocks s1)"
  proof (cases c)
    case (Submit tx)
    with st Cons.prems show ?thesis by (auto simp: submit_blocks)
  next
    case (Mine now)
    with st obtain out where "mine_block env now self = Some (s1, out)" by auto
    from linked_mine [OF this Cons.prems(3)] show ?thesis .
  qed
  with Cons.IH [OF r] show ?case by simp
qed

text \<open>
  C1. In every node reached by constructing it and then calling \<^verbatim>\<open>submit_transaction\<close>
  and \<^verbatim>\<open>mine_block\<close> any number of times, the chain is not empty, and every block after
  the first stores in \<^verbatim>\<open>prev_block_hash\<close> what \<^verbatim>\<open>hash()\<close> returns on the block before it.
\<close>

theorem chain_linkage_invariant:
  assumes "node_after env miner now calls = Some self"
  shows "blocks self \<noteq> [] \<and>
         (\<forall>i. 0 < i \<and> i < length (blocks self) \<longrightarrow>
            prev_block_hash (blocks self ! i) = fst (hash env (blocks self ! (i - 1))))"
proof -
  from assms obtain s0 out where
    i: "BlockchainNode_init env miner now = Some (s0, out)" and r: "run env calls s0 = Some self"
    by (auto simp: node_after_def split: option.splits)
  from i have "blocks s0 \<noteq> [] \<and> linked env (blocks s0)"
    unfolding BlockchainNode_init_def
    by (rule linked_mine) (simp add: linked_def)
  with linked_run [OF r] show ?thesis by (simp add: linked_def)
qed

theorem chain_linkage_invariant_witness:
  "node_after toy_env alice 1 demo_calls = Some demo_node \<and>
   blocks demo_node \<noteq> [] \<and>
   prev_block_hash (blocks demo_node ! 1) = fst (hash toy_env (blocks demo_node ! 0)) \<and>
   prev_block_hash (blocks demo_node ! 2) = fst (hash toy_env (blocks demo_node ! 1))"
proof -
  have len: "length (blocks demo_node) = 3"
    by (simp add: demo_node_def)
  from chain_linkage_invariant [OF demo_run]
  have ne: "blocks demo_node \<noteq> []"
    and all: "\<And>i. 0 < i \<Longrightarrow> i < length (blocks demo_node) \<Longrightarrow>
      prev_block_hash (blocks demo_node ! i) = fst (hash toy_env (blocks demo_node ! (i - 1)))"
    by blast+
  from all [of 1] all [of 2] len ne demo_run show ?thesis
    by simp
qed

lemma genesis_run:
  "BlockchainNode_init toy_env alice 1 = Some (genesis_node, [''Successfully mined new block 0!''])"
  by (simp add: eval_defs genesis_node_def)

lemma second_run:
  "mine_block toy_env 5 genesis_node = Some (second_node, [''Successfully mined new block 1!''])"
  by (simp add: eval_defs genesis_node_def second_node_def)

section \<open>Genesis\<close>

text \<open>
  C7. A node that has just been constructed has a chain of exactly one block; that block
  has number 0, the previous hash \<open>-\<close> and no transactions.
\<close>

theorem genesis_invariant:
  assumes "BlockchainNode_init env miner now = Some (self, out)"
  shows "length (blocks self) = 1 \<and> num (blocks self ! 0) = 0 \<and>
         prev_block_hash (blocks self ! 0) = ''-'' \<and> transactions (blocks self ! 0) = []"
proof -
  let ?empty = "\<lparr>miner_address = miner, blocks = [], pending_transactions = [],
                  proof_of_work_func = (\<lambda>x. endswith x ''000'')\<rparr>"
  from assms have "mine_block env now ?empty = Some (self, out)"
    by (simp add: BlockchainNode_init_def)
  from mine_block_result [OF this] obtain mined where
    m: "mine_loop env (\<lambda>x. endswith x ''000'') (Block_init 0 now ''-'' []) 0 = Some mined"
    and s: "blocks self = [mined]"
    by auto
  from mine_loop_result [OF m] s show ?thesis
    by (simp add: Block_init_def)
qed

theorem genesis_invariant_witness:
  "BlockchainNode_init toy_env alice 1 = Some (genesis_node, [''Successfully mined new block 0!'']) \<and>
   length (blocks genesis_node) = 1 \<and> num (blocks genesis_node ! 0) = 0 \<and>
   prev_block_hash (blocks genesis_node ! 0) = ''-'' \<and> transactions (blocks genesis_node ! 0) = []"
  using genesis_run genesis_invariant [OF genesis_run] by simp

section \<open>Reward issuance\<close>

text \<open>
  C6. When \<^verbatim>\<open>mine_block\<close> returns, the pool holds exactly one transaction: its sender is
  the key \<open>PublicKey 0 0\<close>, its recipient the miner's address, its value
  \<open>REWARD_AMOUNT\<close>, which is 2, and its signature is empty.
\<close>

theorem reward_issuance:
  assumes "mine_block env now self = Some (self', out)"
  shows "pending_transactions self' =
           [\<lparr>sender_address = PublicKey 0 0, recipient_address = miner_address self',
             tx_value = REWARD_AMOUNT, signature = [], validation_failure_reason = None\<rparr>]
         \<and> REWARD_AMOUNT = 2 \<and> miner_address self' = miner_address self"
  using mine_block_result [OF assms]
  by (auto simp: reward_transaction_def Transaction_init_def REWARD_AMOUNT_def)

theorem reward_issuance_witness:
  "mine_block toy_env 5 genesis_node = Some (second_node, [''Successfully mined new block 1!'']) \<and>
   pending_transactions second_node =
     [\<lparr>sender_address = PublicKey 0 0, recipient_address = miner_address second_node,
       tx_value = REWARD_AMOUNT, signature = [], validation_failure_reason = None\<rparr>]
   \<and> REWARD_AMOUNT = 2 \<and> miner_address second_node = miner_address genesis_node"
  using second_run reward_issuance [OF second_run] by simp

section \<open>Proof of work\<close>

lemma mine_block_appends:
  assumes "mine_block env now self = Some (self', out)"
  shows "length (blocks self') = length (blocks self) + 1 \<and>
         proof_of_work_func self' = proof_of_work_func self \<and>
         proof_of_work_func self (fst (hash env (last (blocks self')))) \<and>
         (\<forall>j < length (blocks self). fst (hash env (blocks self' ! j)) = fst (hash env (blocks self ! j)))"
proof -
  from mine_block_result [OF assms] obtain mined where
    m: "mine_loop env (proof_of_work_func self)
            (Block_init (if blocks self = [] then 0 else num (last (blocks self)) + 1) now
               (if blocks self = [] then ''-'' else fst (hash env (last (blocks self))))
               (pending_transactions self)) 0 = Some mined"
    and s: "self' = self\<lparr>blocks := (if blocks self = [] then []
                                      else (blocks self)[length (blocks self) - 1 :=
                                              snd (hash env (last (blocks self)))]) @ [mined],
                          pending_transactions := [reward_transaction self]\<rparr>"
    by blast
  from mine_loop_result [OF m] have p: "proof_of_work_func self (fst (hash env mined))" by simp
  show ?thesis
  proof (cases "blocks self = []")
    case True
    with s p show ?thesis by simp
  next
    case False
    then have "last (blocks self) = blocks self ! (length (blocks self) - 1)"
      by (simp add: last_conv_nth)
    with s p False show ?thesis
      by (simp add: nth_append fst_hash_nth_update)
  qed
qed

lemma pow_ok_mine:
  assumes "mine_block env now self = Some (self', out)" and "pow_ok env self"
  shows "pow_ok env self'"
  unfolding pow_ok_def
proof
  fix b assume "b \<in> set (blocks self')"
  then obtain j where j: "j < length (blocks self')" and b: "b = blocks self' ! j"
    by (auto simp: in_set_conv_nth)
  note a = mine_block_appends [OF assms(1)]
  show "proof_of_work_func self' (fst (hash env b))"
  proof (cases "j < length (blocks self)")
    case True
    with a have "fst (hash env b) = fst (hash env (blocks self ! j))" by (simp add: b)
    moreover from True assms(2) have "proof_of_work_func self (fst (hash env (blocks self ! j)))"
      by (simp add: pow_ok_def)
    ultimately show ?thesis using a by simp
  next
    case False
    with j a have "j = length (blocks self') - 1" by simp
    with a b have "b = last (blocks self')"
      by (metis Suc_eq_plus1 last_conv_nth list.size(3) old.nat.distinct(1))
    with a show ?thesis by simp
  qed
qed

lemma submit_pow: "proof_of_work_func (fst (submit_transaction env self tx)) = proof_of_work_func self"
  by (simp add: submit_transaction_def submit_failed_def Let_def split: prod.splits option.splits sum.splits)

lemma pow_ok_run:
  "run env calls self = Some self' \<Longrightarrow> pow_ok env self \<Longrightarrow> pow_ok env self'"
proof (induction calls arbitrary: self)
  case Nil
  then show ?case by simp
next
  case (Cons c cs)
  from Cons.prems(1) obtain s1 where st: "step env c self = Some s1" and r: "run env cs s1 = Some self'"
    by (auto split: option.splits)
  have "pow_ok env s1"
  proof (cases c)
    case (Submit tx)
    with st Cons.prems(2) show ?thesis by (auto simp: pow_ok_def submit_blocks submit_pow)
  next
    case (Mine now)
    with st obtain out where "mine_block env now self = Some (s1, out)" by auto
    from pow_ok_mine [OF this Cons.prems(2)] show ?thesis .
  qed
  from Cons.IH [OF r this] show ?case .
qed

text \<open>
  C2. \<^verbatim>\<open>mine_block\<close> appends one block, and the digest of that block passes the node's
  \<^verbatim>\<open>proof_of_work_func\<close>: the nonce search ends only when it does. So in every node
  reached by construction, \<^verbatim>\<open>submit_transaction\<close> and \<^verbatim>\<open>mine_block\<close>, the digest of each
  block of the chain passes it.
\<close>

theorem pow_enforcement:
  "(mine_block env now self = Some (self', out) \<longrightarrow>
      length (blocks self') = length (blocks self) + 1 \<and>
      proof_of_work_func self (fst (hash env (last (blocks self'))))) \<and>
   (node_after env miner now' calls = Some node \<longrightarrow>
      (\<forall>b \<in> set (blocks node). proof_of_work_func node (fst (hash env b))))"
proof (intro conjI impI)
  assume m: "mine_block env now self = Some (self', out)"
  from mine_block_appends [OF m] show "length (blocks self') = length (blocks self) + 1"
    and "proof_of_work_func self (fst (hash env (last (blocks self'))))" by simp_all
next
  assume "node_after env miner now' calls = Some node"
  then obtain s0 out0 where
    i: "BlockchainNode_init env miner now' = Some (s0, out0)" and r: "run env calls s0 = Some node"
    by (auto simp: node_after_def split: option.splits)
  from i have "pow_ok env s0"
    unfolding BlockchainNode_init_def
    by (rule pow_ok_mine) (simp add: pow_ok_def)
  from pow_ok_run [OF r this] show "\<forall>b \<in> set (blocks node). proof_of_work_func node (fst (hash env b))"
    by (simp add: pow_ok_def)
qed

theorem pow_enforcement_witness:
  "mine_block toy_env 5 genesis_node = Some (second_node, [''Successfully mined new block 1!'']) \<and>
   length (blocks second_node) = length (blocks genesis_node) + 1 \<and>
   proof_of_work_func genesis_node (fst (hash toy_env (last (blocks second_node)))) \<and>
   node_after toy_env alice 1 demo_calls = Some demo_node \<and>
   proof_of_work_func demo_node (fst (hash toy_env (blocks demo_node ! 0))) \<and>
   proof_of_work_func demo_node (fst (hash toy_env (blocks demo_node ! 1))) \<and>
   proof_of_work_func demo_node (fst (hash toy_env (blocks demo_node ! 2)))"
proof -
  note t = pow_enforcement [of toy_env 5 genesis_node second_node
      "[''Successfully mined new block 1!'']" alice 1 demo_calls demo_node]
  from t second_run have a: "length (blocks second_node) = length (blocks genesis_node) + 1 \<and>
   proof_of_work_func genesis_node (fst (hash toy_env (last (blocks second_node))))"
    by blast
  from t demo_run have b: "\<And>b. b \<in> set (blocks demo_node) \<Longrightarrow> proof_of_work_func demo_node (fst (hash toy_env b))"
    by blast
  have len: "length (blocks demo_node) = 3" by (simp add: demo_node_def)
  from len have "blocks demo_node ! 0 \<in> set (blocks demo_node)"
    "blocks demo_node ! 1 \<in> set (blocks demo_node)" "blocks demo_node ! 2 \<in> set (blocks demo_node)"
    by (simp_all del: One_nat_def)
  with a b second_run demo_run show ?thesis by blast
qed

section \<open>The failure reason of a transaction\<close>

text \<open>
  C10. A transaction that was just constructed, or on which \<^verbatim>\<open>validate\<close> has only ever
  succeeded, has no \<^verbatim>\<open>validation_failure_reason\<close> attribute: on it
  \<^verbatim>\<open>get_validation_failure_reason\<close> raises \<open>AttributeError\<close> and does not return
  \<^verbatim>\<open>None\<close>. After a \<^verbatim>\<open>validate\<close> that failed with \<open>e\<close> it returns \<^verbatim>\<open>str(e)\<close>.
\<close>

theorem failure_reason_attribute:
  "get_validation_failure_reason (Transaction_init sender recipient v sig)
     = Inl (AttributeError ''validation_failure_reason'') \<and>
   (validate_tx env t1 = (t1', None) \<longrightarrow> t1' = t1) \<and>
   (validation_failure_reason t2 = None \<longrightarrow>
      get_validation_failure_reason t2 = Inl (AttributeError ''validation_failure_reason'')) \<and>
   (validate_tx env t3 = (t3', Some e) \<longrightarrow>
      get_validation_failure_reason t3' = Inr (str_exn e))"
  by (auto simp: get_validation_failure_reason_def Transaction_init_def validate_tx_def
           split: option.splits)

theorem failure_reason_attribute_witness:
  "validate_tx toy_env good_tx = (good_tx, None) \<and>
   validation_failure_reason good_tx = None \<and>
   get_validation_failure_reason good_tx = Inl (AttributeError ''validation_failure_reason'') \<and>
   validate_tx toy_env forged_tx =
     (forged_tx\<lparr>validation_failure_reason := Some ''Verification failed''\<rparr>,
      Some (VerificationError ''Verification failed'')) \<and>
   get_validation_failure_reason
     (forged_tx\<lparr>validation_failure_reason := Some ''Verification failed''\<rparr>)
     = Inr ''Verification failed''"
proof -
  have a: "validate_tx toy_env good_tx = (good_tx, None)"
    by (simp add: validate_tx_def toy_env_def good_tx_def Transaction_init_def)
  have b: "validation_failure_reason good_tx = None"
    by (simp add: good_tx_def Transaction_init_def)
  have c: "validate_tx toy_env forged_tx =
     (forged_tx\<lparr>validation_failure_reason := Some ''Verification failed''\<rparr>,
      Some (VerificationError ''Verification failed''))"
    by (simp add: validate_tx_def toy_env_def forged_tx_def Transaction_init_def)
  note t = failure_reason_attribute [of alice bob 1 "''ok''" toy_env good_tx good_tx good_tx forged_tx
      "forged_tx\<lparr>validation_failure_reason := Some ''Verification failed''\<rparr>"
      "VerificationError ''Verification failed''"]
  from t a b c show ?thesis by simp
qed

section \<open>Submitting a transaction\<close>

lemma submit_failed_result:
  "submit_failed env self tx e = (self', tx', out, r) \<Longrightarrow>
     self' = self \<and> tx' = tx \<and> r \<noteq> None \<and>
     take 6 out = failure_detail env tx e \<and>
     (\<forall>reason. validation_failure_reason tx = Some reason \<longrightarrow>
        r = Some e \<and>
        out = failure_detail env tx e
                @ (if reason \<noteq> [] then [''Validation Failure Reason: '' @ reason] else []))"
  by (auto simp: submit_failed_def get_validation_failure_reason_def Let_def failure_detail_def
           split: option.splits)

lemma failure_detail_reason [simp]:
  "failure_detail env (tx\<lparr>validation_failure_reason := x\<rparr>) e = failure_detail env tx e"
  by (simp add: failure_detail_def)

text \<open>
  C5. When the signature of \<open>tx\<close> verifies and \<^verbatim>\<open>get_balance(tx.sender_address)\<close> is less
  than \<^verbatim>\<open>tx.value\<close>, \<^verbatim>\<open>submit_transaction\<close> leaves the node as it was, an exception
  leaves the call, and the first line it prints names the insufficient funds with the
  value required and the balance available. Whatever the outcome, the pool afterwards is
  the old pool with \<open>tx\<close> appended when both checks succeed, and the old pool otherwise.
\<close>

theorem insufficient_funds_rejected:
  assumes "submit_transaction env self tx = (self', tx', out, r)"
  shows
    "(rsa_verify env (get_core_data env tx) (signature tx) (sender_address tx) = None \<and>
      get_balance env self (sender_address tx) < tx_value tx \<longrightarrow>
        self' = self \<and> r \<noteq> None \<and>
        hd out = ''Transaction submission failed: Insufficient tokens available (''
                   @ str_float env (tx_value tx) @ '' required, ''
                   @ str_float env (get_balance env self (sender_address tx)) @ '' available)'') \<and>
     pending_transactions self' =
       (if rsa_verify env (get_core_data env tx) (signature tx) (sender_address tx) = None \<and>
           \<not> get_balance env self (sender_address tx) < tx_value tx
        then pending_transactions self @ [tx] else pending_transactions self)"
proof (cases "rsa_verify env (get_core_data env tx) (signature tx) (sender_address tx)")
  case None
  show ?thesis
  proof (cases "get_balance env self (sender_address tx) < tx_value tx")
    case True
    with None assms have "submit_failed env self tx
        (Exception (''Insufficient tokens available (''
                        @ str_float env (tx_value tx) @ '' required, ''
                        @ str_float env (get_balance env self (sender_address tx)) @ '' available)''))
        = (self', tx', out, r)"
      by (simp add: submit_transaction_def validate_tx_def Let_def)
    from submit_failed_result [OF this] have "self' = self" "r \<noteq> None"
      and "take 6 out \<noteq> []" and "hd (take 6 out) = ''Transaction submission failed: Insufficient tokens available (''
                   @ str_float env (tx_value tx) @ '' required, ''
                   @ str_float env (get_balance env self (sender_address tx)) @ '' available)''"
      by (simp_all add: failure_detail_def)
    moreover from \<open>take 6 out \<noteq> []\<close> have "hd (take 6 out) = hd out"
      by (cases out) simp_all
    ultimately show ?thesis using None True by simp
  next
    case False
    with None assms show ?thesis
      by (auto simp: submit_transaction_def validate_tx_def Let_def)
  qed
next
  case (Some e)
  with assms have "submit_failed env self (tx\<lparr>validation_failure_reason := Some (str_exn e)\<rparr>) e
        = (self', tx', out, r)"
    by (simp add: submit_transaction_def validate_tx_def Let_def)
  from submit_failed_result [OF this] Some show ?thesis by simp
qed

lemma costly_run:
  "submit_transaction toy_env genesis_node costly_tx =
     (genesis_node, costly_tx,
      [''Transaction submission failed: Insufficient tokens available (5.0 required, 0.0 available)'',
       ''Transaction Details:'',
       ''Sender Public Key: PublicKey(7, 5)'',
       ''Recipient Public Key: PublicKey(8, 5)'',
       ''Value: 5.0'',
       ''Signature: b:ok''],
      Some (AttributeError ''validation_failure_reason''))"
  by (simp add: eval_defs genesis_node_def costly_tx_def)

lemma costly_checks:
  "rsa_verify toy_env (get_core_data toy_env costly_tx) (signature costly_tx)
     (sender_address costly_tx) = None \<and>
   get_balance toy_env genesis_node (sender_address costly_tx) < tx_value costly_tx"
  by (simp add: eval_defs genesis_node_def costly_tx_def)

theorem insufficient_funds_rejected_witness:
  "submit_transaction toy_env genesis_node costly_tx =
     (genesis_node, costly_tx,
      [''Transaction submission failed: Insufficient tokens available (5.0 required, 0.0 available)'',
       ''Transaction Details:'',
       ''Sender Public Key: PublicKey(7, 5)'',
       ''Recipient Public Key: PublicKey(8, 5)'',
       ''Value: 5.0'',
       ''Signature: b:ok''],
      Some (AttributeError ''validation_failure_reason'')) \<and>
   rsa_verify toy_env (get_core_data toy_env costly_tx) (signature costly_tx)
     (sender_address costly_tx) = None \<and>
   get_balance toy_env genesis_node (sender_address costly_tx) < tx_value costly_tx \<and>
   ''Transaction submission failed: Insufficient tokens available (5.0 required, 0.0 available)''
     = ''Transaction submission failed: Insufficient tokens available (''
         @ str_float toy_env (tx_value costly_tx) @ '' required, ''
         @ str_float toy_env (get_balance toy_env genesis_node (sender_address costly_tx))
         @ '' available)'' \<and>
   pending_transactions genesis_node =
     (if rsa_verify toy_env (get_core_data toy_env costly_tx) (signature costly_tx)
           (sender_address costly_tx) = None \<and>
         \<not> get_balance toy_env genesis_node (sender_address costly_tx) < tx_value costly_tx
      then pending_transactions genesis_node @ [costly_tx]
      else pending_transactions genesis_node)"
  using costly_run costly_checks insufficient_funds_rejected [OF costly_run]
  by simp

lemma forged_run:
  "submit_transaction toy_env genesis_node forged_tx =
     (genesis_node, forged_tx\<lparr>validation_failure_reason := Some ''Verification failed''\<rparr>,
      [''Transaction submission failed: Verification failed'',
       ''Transaction Details:'',
       ''Sender Public Key: PublicKey(7, 5)'',
       ''Recipient Public Key: PublicKey(8, 5)'',
       ''Value: 1.0'',
       ''Signature: b:bad'',
       ''Validation Failure Reason: Verification failed''],
      Some (VerificationError ''Verification failed''))"
  by (simp add: eval_defs genesis_node_def forged_tx_def)

text \<open>
  C4, as stated, says that neither failure leaves the call. In the code the handler ends in
  \<^verbatim>\<open>raise\<close>: a submission with a bad signature re-raises what \<^verbatim>\<open>rsa.verify\<close> raised, and
  one with insufficient funds ends in an exception as well.
\<close>

theorem submit_propagates_counterexample:
  "rsa_verify toy_env (get_core_data toy_env forged_tx) (signature forged_tx)
     (sender_address forged_tx) = Some (VerificationError ''Verification failed'') \<and>
   snd (snd (snd (submit_transaction toy_env genesis_node forged_tx)))
     = Some (VerificationError ''Verification failed'') \<and>
   rsa_verify toy_env (get_core_data toy_env costly_tx) (signature costly_tx)
     (sender_address costly_tx) = None \<and>
   get_balance toy_env genesis_node (sender_address costly_tx) < tx_value costly_tx \<and>
   snd (snd (snd (submit_transaction toy_env genesis_node costly_tx)))
     = Some (AttributeError ''validation_failure_reason'')"
proof -
  have "rsa_verify toy_env (get_core_data toy_env forged_tx) (signature forged_tx)
     (sender_address forged_tx) = Some (VerificationError ''Verification failed'')"
    by (simp add: toy_env_def forged_tx_def Transaction_init_def)
  with forged_run costly_run costly_checks show ?thesis by simp
qed

text \<open>
  C4, amended. On either failure (the signature does not verify, or the sender's balance
  is less than the value) \<^verbatim>\<open>submit_transaction\<close> prints the failure message followed by
  the sender, recipient, value and signature of the transaction, leaves the node and its
  pool as they were, and an exception leaves the call. When the signature does not verify,
  that exception is the one \<^verbatim>\<open>rsa.verify\<close> raised, and the recorded reason is printed as a
  seventh line if it is not empty.
\<close>

theorem submit_failure_handling:
  assumes "submit_transaction env self tx = (self', tx', out, r)"
    and "rsa_verify env (get_core_data env tx) (signature tx) (sender_address tx) \<noteq> None \<or>
         get_balance env self (sender_address tx) < tx_value tx"
  shows
    "self' = self \<and> r \<noteq> None \<and>
     take 6 out =
       failure_detail env tx
         (case rsa_verify env (get_core_data env tx) (signature tx) (sender_address tx) of
            Some e \<Rightarrow> e
          | None \<Rightarrow> Exception (''Insufficient tokens available ('' @ str_float env (tx_value tx)
                       @ '' required, '' @ str_float env (get_balance env self (sender_address tx))
                       @ '' available)'')) \<and>
     (\<forall>e. rsa_verify env (get_core_data env tx) (signature tx) (sender_address tx) = Some e \<longrightarrow>
        r = Some e \<and>
        out = failure_detail env tx e @
          (if str_exn e \<noteq> [] then [''Validation Failure Reason: '' @ str_exn e] else []))"
proof (cases "rsa_verify env (get_core_data env tx) (signature tx) (sender_address tx)")
  case None
  with assms(2) have lt: "get_balance env self (sender_address tx) < tx_value tx" by simp
  with None assms(1) have "submit_failed env self tx
        (Exception (''Insufficient tokens available (''
                        @ str_float env (tx_value tx) @ '' required, ''
                        @ str_float env (get_balance env self (sender_address tx)) @ '' available)''))
        = (self', tx', out, r)"
    by (simp add: submit_transaction_def validate_tx_def Let_def)
  from submit_failed_result [OF this] None show ?thesis by simp
next
  case (Some e)
  with assms(1) have "submit_failed env self (tx\<lparr>validation_failure_reason := Some (str_exn e)\<rparr>) e
        = (self', tx', out, r)"
    by (simp add: submit_transaction_def validate_tx_def Let_def)
  from submit_failed_result [OF this]
  have "self' = self" and "r = Some e"
    and "out = failure_detail env tx e @
          (if str_exn e \<noteq> [] then [''Validation Failure Reason: '' @ str_exn e] else [])"
    by simp_all
  moreover have "length (failure_detail env tx e) = 6"
    by (simp add: failure_detail_def)
  ultimately show ?thesis using Some by simp
qed

theorem submit_failure_handling_witness:
  "submit_transaction toy_env genesis_node forged_tx =
     (genesis_node, forged_tx\<lparr>validation_failure_reason := Some ''Verification failed''\<rparr>,
      [''Transaction submission failed: Verification failed'',
       ''Transaction Details:'',
       ''Sender Public Key: PublicKey(7, 5)'',
       ''Recipient Public Key: PublicKey(8, 5)'',
       ''Value: 1.0'',
       ''Signature: b:bad'',
       ''Validation Failure Reason: Verification failed''],
      Some (VerificationError ''Verification failed'')) \<and>
   rsa_verify toy_env (get_core_data toy_env forged_tx) (signature forged_tx)
     (sender_address forged_tx) = Some (VerificationError ''Verification failed'') \<and>
   failure_detail toy_env forged_tx (VerificationError ''Verification failed'')
   = [''Transaction submission failed: Verification failed'',
      ''Transaction Details:'',
      ''Sender Public Key: PublicKey(7, 5)'',
      ''Recipient Public Key: PublicKey(8, 5)'',
      ''Value: 1.0'',
      ''Signature: b:bad'']"
proof -
  have v: "rsa_verify toy_env (get_core_data toy_env forged_tx) (signature forged_tx)
     (sender_address forged_tx) = Some (VerificationError ''Verification failed'')"
    by (simp add: toy_env_def forged_tx_def Transaction_init_def)
  then have d: "rsa_verify toy_env (get_core_data toy_env forged_tx) (signature forged_tx)
     (sender_address forged_tx) \<noteq> None \<or>
     get_balance toy_env genesis_node (sender_address forged_tx) < tx_value forged_tx"
    by simp
  from submit_failure_handling [OF forged_run d] v forged_run show ?thesis
    by simp
qed

section \<open>The header and the digest of a block\<close>

text \<open>\<^verbatim>\<open>str\<close> of an integer determines the integer.\<close>

lemma digit_char_inj: "a < 10 \<Longrightarrow> b < 10 \<Longrightarrow> digit_char a = digit_char b \<Longrightarrow> a = b"
proof -
  assume a: "a < 10" and b: "b < 10" and e: "digit_char a = digit_char b"
  have d: "distinct ''0123456789''" by simp
  have l: "length ''0123456789'' = 10" by simp
  from a b e show "a = b"
    unfolding digit_char_def
    using nth_eq_iff_index_eq [OF d, of a b] l by simp
qed

lemma digit_char_digit: "d < 10 \<Longrightarrow> digit_char d \<in> set ''0123456789''"
  unfolding digit_char_def by (rule nth_mem) simp

lemma str_nat_ne: "str_nat n \<noteq> []"
  by (subst str_nat.simps) simp

lemma digit_char_not_minus: "d < 10 \<Longrightarrow> digit_char d \<noteq> CHR ''-''"
  using digit_char_digit [of d] by auto

lemma str_nat_digits: "list_all (\<lambda>c. c \<noteq> CHR ''-'') (str_nat n)"
proof (induction n rule: str_nat.induct)
  case (1 n)
  show ?case
  proof (cases "n < 10")
    case True
    then show ?thesis
      by (subst str_nat.simps) (simp add: digit_char_not_minus)
  next
    case False
    have "n mod 10 < 10" by simp
    with False 1 show ?thesis
      by (subst str_nat.simps) (simp add: digit_char_not_minus)
  qed
qed

lemma str_nat_inj: "str_nat m = str_nat n \<Longrightarrow> m = n"
proof (induction m arbitrary: n rule: str_nat.induct)
  case (1 m)
  show ?case
  proof (cases "m < 10")
    case True
    then have m: "str_nat m = [digit_char m]" by (subst str_nat.simps) simp
    show ?thesis
    proof (cases "n < 10")
      case n: True
      then have "str_nat n = [digit_char n]" by (subst str_nat.simps) simp
      with m 1(2) True n show ?thesis by (simp add: digit_char_inj)
    next
      case n: False
      then have "str_nat n = str_nat (n div 10) @ [digit_char (n mod 10)]"
        by (subst str_nat.simps) simp
      with m 1(2) have "str_nat (n div 10) = []" by simp
      with str_nat_ne show ?thesis by blast
    qed
  next
    case False
    then have m: "str_nat m = str_nat (m div 10) @ [digit_char (m mod 10)]"
      by (subst str_nat.simps) simp
    show ?thesis
    proof (cases "n < 10")
      case n: True
      then have "str_nat n = [digit_char n]" by (subst str_nat.simps) simp
      with m 1(2) have "str_nat (m div 10) = []" by simp
      with str_nat_ne show ?thesis by blast
    next
      case n: False
      then have "str_nat n = str_nat (n div 10) @ [digit_char (n mod 10)]"
        by (subst str_nat.simps) simp
      with m 1(2) have a: "str_nat (m div 10) = str_nat (n div 10)"
        and b: "digit_char (m mod 10) = digit_char (n mod 10)" by simp_all
      from 1(1) [OF False a] have "m div 10 = n div 10" .
      moreover from b have "m mod 10 = n mod 10" by (simp add: digit_char_inj)
      ultimately show ?thesis by (metis div_mult_mod_eq)
    qed
  qed
qed

lemma str_nat_no_minus: "str_nat n \<noteq> CHR ''-'' # s"
proof
  assume "str_nat n = CHR ''-'' # s"
  with str_nat_digits [of n] show False by simp
qed

lemma str_int_inj: "str_int a = str_int b \<Longrightarrow> a = b"
  by (auto simp: str_int_def str_nat_no_minus str_nat_no_minus [symmetric]
           dest!: str_nat_inj split: if_splits)

text \<open>
  Each field enters the header, and each field of a transaction its \<^verbatim>\<open>repr\<close>.
\<close>

lemma digit_char_not_comma: "d < 10 \<Longrightarrow> digit_char d \<noteq> CHR '',''"
  using digit_char_digit [of d] by auto

lemma str_nat_no_comma: "list_all (\<lambda>c. c \<noteq> CHR '','') (str_nat n)"
proof (induction n rule: str_nat.induct)
  case (1 n)
  show ?case
  proof (cases "n < 10")
    case True
    then show ?thesis
      by (subst str_nat.simps) (simp add: digit_char_not_comma)
  next
    case False
    have "n mod 10 < 10" by simp
    with False 1 show ?thesis
      by (subst str_nat.simps) (simp add: digit_char_not_comma)
  qed
qed

lemma str_int_no_comma: "CHR '','' \<notin> set (str_int i)"
  using str_nat_no_comma [of "nat i"] str_nat_no_comma [of "nat (- i)"]
  by (auto simp: str_int_def list_all_iff)

lemma split_at_sep:
  "c \<notin> set a \<Longrightarrow> c \<notin> set a' \<Longrightarrow> a @ c # r = a' @ c # r' \<Longrightarrow> a = a' \<and> r = r'"
proof (induction a arbitrary: a')
  case Nil
  then show ?case by (cases a') auto
next
  case (Cons x a)
  then show ?case by (cases a') auto
qed

lemma str_PublicKey_inj: "str_PublicKey k1 = str_PublicKey k2 \<Longrightarrow> k1 = k2"
proof -
  assume e: "str_PublicKey k1 = str_PublicKey k2"
  obtain n1 e1 where k1: "k1 = PublicKey n1 e1" by (cases k1)
  obtain n2 e2 where k2: "k2 = PublicKey n2 e2" by (cases k2)
  from e k1 k2 have "str_int n1 @ CHR '','' # (CHR '' '' # str_int e1 @ '')'')
                   = str_int n2 @ CHR '','' # (CHR '' '' # str_int e2 @ '')'')"
    by simp
  from split_at_sep [OF str_int_no_comma str_int_no_comma this]
  have "str_int n1 = str_int n2" and "str_int e1 = str_int e2" by simp_all
  with k1 k2 show ?thesis by (simp add: str_int_inj)
qed

lemma header_num: "(get_header env (b\<lparr>num := k1\<rparr>) = get_header env (b\<lparr>num := k2\<rparr>)) = (k1 = k2)"
  by (auto simp: get_header_def dest: str_int_inj)

lemma header_timestamp:
  "(get_header env (b\<lparr>timestamp := x1\<rparr>) = get_header env (b\<lparr>timestamp := x2\<rparr>))
     = (str_float env x1 = str_float env x2)"
  by (simp add: get_header_def)

lemma header_prev:
  "(get_header env (b\<lparr>prev_block_hash := p1\<rparr>) = get_header env (b\<lparr>prev_block_hash := p2\<rparr>))
     = (p1 = p2)"
  by (simp add: get_header_def)

lemma header_transactions:
  "(get_header env (b\<lparr>transactions := ts1\<rparr>) = get_header env (b\<lparr>transactions := ts2\<rparr>))
     = (str_transactions env ts1 = str_transactions env ts2)"
  by (simp add: get_header_def)

lemma join_Cons_repr:
  "\<exists>rest. join '', '' (map (repr_Transaction env) (t # ts)) = CHR ''T'' # rest"
  by (cases ts) (simp_all add: repr_Transaction_def)

lemma str_transactions_Cons_ne: "str_transactions env (t # ts) \<noteq> str_transactions env []"
proof -
  from join_Cons_repr [of env t ts] obtain rest where
    "join '', '' (map (repr_Transaction env) (t # ts)) = CHR ''T'' # rest" ..
  then show ?thesis by (simp add: str_transactions_def)
qed

lemma repr_sender:
  "(repr_Transaction env (t\<lparr>sender_address := s1\<rparr>) = repr_Transaction env (t\<lparr>sender_address := s2\<rparr>))
     = (s1 = s2)"
  by (auto simp: repr_Transaction_def dest: str_PublicKey_inj)

lemma repr_recipient:
  "(repr_Transaction env (t\<lparr>recipient_address := s1\<rparr>) = repr_Transaction env (t\<lparr>recipient_address := s2\<rparr>))
     = (s1 = s2)"
  by (auto simp: repr_Transaction_def dest: str_PublicKey_inj)

lemma repr_value:
  "(repr_Transaction env (t\<lparr>tx_value := v1\<rparr>) = repr_Transaction env (t\<lparr>tx_value := v2\<rparr>))
     = (str_float env v1 = str_float env v2)"
  by (simp add: repr_Transaction_def)

lemma repr_signature:
  "(repr_Transaction env (t\<lparr>signature := g1\<rparr>) = repr_Transaction env (t\<lparr>signature := g2\<rparr>))
     = (repr_bytes env g1 = repr_bytes env g2)"
  by (simp add: repr_Transaction_def)


lemma join_Cons: "join sep (x # xs) = x @ concat (map (\<lambda>y. sep @ y) xs)"
  by (induction xs arbitrary: x) simp_all

lemma join_middle:
  "join sep (xs @ y # ys)
     = concat (map (\<lambda>x. x @ sep) xs) @ y @ concat (map (\<lambda>y. sep @ y) ys)"
proof (induction xs)
  case Nil
  then show ?case by (simp add: join_Cons)
next
  case (Cons x xs)
  have "join sep ((x # xs) @ y # ys) = x @ sep @ join sep (xs @ y # ys)"
    by (cases xs) simp_all
  with Cons show ?case by simp
qed

lemma str_transactions_middle:
  "(str_transactions env (pre @ t1 # post) = str_transactions env (pre @ t2 # post))
     = (repr_Transaction env t1 = repr_Transaction env t2)"
  by (simp add: str_transactions_def join_middle)

lemma header_transaction_at:
  "(get_header env (b\<lparr>transactions := pre @ t1 # post\<rparr>)
      = get_header env (b\<lparr>transactions := pre @ t2 # post\<rparr>))
     = (repr_Transaction env t1 = repr_Transaction env t2)"
  by (simp add: header_transactions str_transactions_middle)

lemma header_nonempty:
  "get_header env (b\<lparr>transactions := t # ts\<rparr>) \<noteq> get_header env (b\<lparr>transactions := []\<rparr>)"
  by (simp add: header_transactions str_transactions_Cons_ne)

text \<open>
  C9. The header of a block is \<^verbatim>\<open>str\<close> of its number, timestamp, previous hash, nonce and
  transactions, concatenated in that order, and every one of the five is encoded in it:
  with the other fields fixed, two headers are equal only when the numbers, the nonces and
  the previous hashes are equal and the timestamps print alike; a block with transactions
  never has the header of the block without them; and replacing one transaction of the
  list by another changes the header unless the two have the same \<^verbatim>\<open>repr\<close>, which holds
  the sender, the recipient, the printed value and the printed signature.
  \<^verbatim>\<open>hash()\<close> returns the SHA-256 hex digest of the header and stores it in
  \<^verbatim>\<open>block_hash\<close>; the header does not read \<^verbatim>\<open>block_hash\<close>, so a second call returns the
  same digest and leaves the block as the first call left it.
\<close>

theorem header_and_hash:
  "get_header env b =
     str_int (num b) @ str_float env (timestamp b) @ prev_block_hash b @ str_int (nonce b)
       @ str_transactions env (transactions b) \<and>
   hash env b = (sha256_hexdigest env (get_header env b),
                 b\<lparr>block_hash := sha256_hexdigest env (get_header env b)\<rparr>) \<and>
   get_header env (b\<lparr>block_hash := h\<rparr>) = get_header env b \<and>
   hash env (snd (hash env b)) = hash env b \<and>
   (get_header env (b\<lparr>nonce := n1\<rparr>) = get_header env (b\<lparr>nonce := n2\<rparr>)) = (n1 = n2) \<and>
   (get_header env (b\<lparr>num := k1\<rparr>) = get_header env (b\<lparr>num := k2\<rparr>)) = (k1 = k2) \<and>
   (get_header env (b\<lparr>timestamp := x1\<rparr>) = get_header env (b\<lparr>timestamp := x2\<rparr>))
     = (str_float env x1 = str_float env x2) \<and>
   (get_header env (b\<lparr>prev_block_hash := p1\<rparr>) = get_header env (b\<lparr>prev_block_hash := p2\<rparr>))
     = (p1 = p2) \<and>
   get_header env (b\<lparr>transactions := t # ts\<rparr>) \<noteq> get_header env (b\<lparr>transactions := []\<rparr>) \<and>
   (get_header env (b\<lparr>transactions := pre @ t1 # post\<rparr>)
      = get_header env (b\<lparr>transactions := pre @ t2 # post\<rparr>))
     = (repr_Transaction env t1 = repr_Transaction env t2) \<and>
   (repr_Transaction env (t\<lparr>sender_address := s1\<rparr>)
      = repr_Transaction env (t\<lparr>sender_address := s2\<rparr>)) = (s1 = s2) \<and>
   (repr_Transaction env (t\<lparr>recipient_address := r1\<rparr>)
      = repr_Transaction env (t\<lparr>recipient_address := r2\<rparr>)) = (r1 = r2) \<and>
   (repr_Transaction env (t\<lparr>tx_value := v1\<rparr>) = repr_Transaction env (t\<lparr>tx_value := v2\<rparr>))
     = (str_float env v1 = str_float env v2) \<and>
   (repr_Transaction env (t\<lparr>signature := g1\<rparr>) = repr_Transaction env (t\<lparr>signature := g2\<rparr>))
     = (repr_bytes env g1 = repr_bytes env g2)"
proof -
  have n: "(get_header env (b\<lparr>nonce := n1\<rparr>) = get_header env (b\<lparr>nonce := n2\<rparr>)) = (n1 = n2)"
    by (auto simp: get_header_def dest: str_int_inj)
  have d: "get_header env b =
     str_int (num b) @ str_float env (timestamp b) @ prev_block_hash b @ str_int (nonce b)
       @ str_transactions env (transactions b)"
    by (simp add: get_header_def)
  have h: "hash env b = (sha256_hexdigest env (get_header env b),
                 b\<lparr>block_hash := sha256_hexdigest env (get_header env b)\<rparr>)"
    by (simp add: hash_def Let_def)
  have c: "get_header env (b\<lparr>block_hash := h\<rparr>) = get_header env b"
    by simp
  have i: "hash env (snd (hash env b)) = hash env b"
    by (simp add: hash_def Let_def)
  show ?thesis
    by (intro conjI)
       (rule d h c i n header_num header_timestamp header_prev header_nonempty
             header_transaction_at repr_sender repr_recipient repr_value repr_signature)+
qed

section \<open>Validating the chain\<close>

lemma uncached_hash [simp]: "uncached (snd (hash env b)) = uncached b"
  by (simp add: uncached_def snd_hash)

lemma fst_hash_uncached: "fst (hash env (uncached b)) = fst (hash env b)"
  by (simp add: uncached_def fst_hash)

lemma prev_uncached: "prev_block_hash (uncached b) = prev_block_hash b"
  by (simp add: uncached_def)

lemma num_uncached: "num (uncached b) = num b"
  by (simp add: uncached_def)

lemma map_uncached_update [simp]:
  "map uncached (bs[k := snd (hash env (bs ! k))]) = map uncached bs"
proof (cases "k < length bs")
  case True
  then have "(map uncached bs)[k := map uncached bs ! k] = map uncached bs"
    by (simp only: list_update_id)
  with True show ?thesis by (simp add: map_update)
next
  case False
  then have "length bs \<le> k" by arith
  then have "bs[k := snd (hash env (bs ! k))] = bs" by (rule list_update_beyond)
  then show ?thesis by (simp only:)
qed

lemma uncached_nth:
  assumes "map uncached bs' = map uncached bs" and "k < length bs"
  shows "uncached (bs' ! k) = uncached (bs ! k)"
proof -
  from assms(1) have "length bs' = length bs" by (rule map_eq_imp_length_eq)
  moreover from assms(1) have "map uncached bs' ! k = map uncached bs ! k" by simp
  ultimately show ?thesis using assms(2) nth_map [of k bs' uncached] nth_map [of k bs uncached]
    by simp
qed

lemma same_digest:
  assumes "map uncached bs' = map uncached bs" and "k < length bs"
  shows "fst (hash env (bs' ! k)) = fst (hash env (bs ! k))"
  using uncached_nth [OF assms] fst_hash_uncached by metis

lemma same_prev:
  assumes "map uncached bs' = map uncached bs" and "k < length bs"
  shows "prev_block_hash (bs' ! k) = prev_block_hash (bs ! k)"
  using uncached_nth [OF assms] prev_uncached by metis

lemma same_num:
  assumes "map uncached bs' = map uncached bs" and "k < length bs"
  shows "num (bs' ! k) = num (bs ! k)"
  using uncached_nth [OF assms] num_uncached by metis

lemma same_link:
  assumes "map uncached bs' = map uncached bs" and "k < length bs"
  shows "link_at env bs' k = link_at env bs k"
proof -
  from assms(2) have "k - 1 < length bs" by simp
  from same_digest [OF assms(1) this] same_prev [OF assms] show ?thesis
    by (simp add: link_at_def)
qed

lemma same_pow:
  assumes "map uncached bs' = map uncached bs" and "k < length bs"
  shows "pow_at env pow bs' k = pow_at env pow bs k"
  using same_digest [OF assms] by (simp add: pow_at_def)

lemma loop_stop: "\<not> i < length bs \<Longrightarrow> loop_post env pow i bs (validate_chain_loop env pow i bs)"
  by (subst validate_chain_loop.simps) (auto simp: loop_post_def)

lemma loop_mismatch:
  assumes "i < length bs" "0 < i" "\<not> link_at env bs i"
  shows "validate_chain_loop env pow i bs =
           (False, mismatch_line (bs ! i), bs[i - 1 := snd (hash env (bs ! (i - 1)))])"
  using assms
  by (subst validate_chain_loop.simps) (simp add: Let_def link_at_def mismatch_line_def)

lemma loop_pow:
  assumes "i < length bs" "0 < i" "link_at env bs i" "\<not> pow_at env pow bs i"
  shows "validate_chain_loop env pow i bs =
           (False, pow_line (bs ! i),
            bs[i - 1 := snd (hash env (bs ! (i - 1))), i := snd (hash env (bs ! i))])"
  using assms
  by (subst validate_chain_loop.simps)
     (simp add: Let_def link_at_def pow_at_def pow_line_def fst_validate snd_validate)

lemma loop_next:
  assumes "i < length bs" "0 < i" "link_at env bs i" "pow_at env pow bs i"
  shows "validate_chain_loop env pow i bs =
           validate_chain_loop env pow (i + 1)
             (bs[i - 1 := snd (hash env (bs ! (i - 1))), i := snd (hash env (bs ! i))])"
  using assms
  by (subst validate_chain_loop.simps)
     (simp add: Let_def link_at_def pow_at_def fst_validate snd_validate)

lemma loop_post_shift:
  assumes m: "map uncached bs2 = map uncached bs"
    and keep: "\<And>j. i < j \<Longrightarrow> j < length bs \<Longrightarrow> bs2 ! j = bs ! j"
    and here: "link_at env bs i" "pow_at env pow bs i"
    and post: "loop_post env pow (i + 1) bs2 (ok, out, bs')"
  shows "loop_post env pow i bs (ok, out, bs')"
proof -
  from m have len: "length bs2 = length bs" by (rule map_eq_imp_length_eq)
  have L: "\<And>k. k < length bs \<Longrightarrow> link_at env bs2 k = link_at env bs k"
    by (rule same_link [OF m])
  have P: "\<And>k. k < length bs \<Longrightarrow> pow_at env pow bs2 k = pow_at env pow bs k"
    by (rule same_pow [OF m])
  have N: "\<And>k. k < length bs \<Longrightarrow> mismatch_line (bs2 ! k) = mismatch_line (bs ! k)"
    "\<And>k. k < length bs \<Longrightarrow> pow_line (bs2 ! k) = pow_line (bs ! k)"
    using same_num [OF m] by (simp_all add: mismatch_line_def pow_line_def)
  from post have p1: "map uncached bs' = map uncached bs2"
    and p2: "ok = (\<forall>k. i + 1 \<le> k \<and> k < length bs2 \<longrightarrow> link_at env bs2 k \<and> pow_at env pow bs2 k)"
    and p3: "ok \<Longrightarrow> out = [''Successfully validated chain of size '' @ str_int (int (length bs2)) @ ''!'']"
    and p4: "\<not> ok \<Longrightarrow> (\<exists>k. i + 1 \<le> k \<and> k < length bs2 \<and>
                (\<forall>j. i + 1 \<le> j \<and> j < k \<longrightarrow> link_at env bs2 j \<and> pow_at env pow bs2 j) \<and>
                (if \<not> link_at env bs2 k then out = mismatch_line (bs2 ! k)
                 else \<not> pow_at env pow bs2 k \<and> out = pow_line (bs2 ! k)) \<and>
                (\<forall>j. k < j \<and> j < length bs2 \<longrightarrow> bs' ! j = bs2 ! j))"
    by (simp_all add: loop_post_def)
  have q1: "map uncached bs' = map uncached bs" using p1 m by simp
  have q2: "ok = (\<forall>k. i \<le> k \<and> k < length bs \<longrightarrow> link_at env bs k \<and> pow_at env pow bs k)"
  proof
    assume ok
    with p2 have a: "\<And>k. i + 1 \<le> k \<Longrightarrow> k < length bs \<Longrightarrow> link_at env bs k \<and> pow_at env pow bs k"
      using L P len by auto
    show "\<forall>k. i \<le> k \<and> k < length bs \<longrightarrow> link_at env bs k \<and> pow_at env pow bs k"
    proof (intro allI impI)
      fix k assume k: "i \<le> k \<and> k < length bs"
      then have "k = i \<or> i + 1 \<le> k" by arith
      with a k here show "link_at env bs k \<and> pow_at env pow bs k" by blast
    qed
  next
    assume "\<forall>k. i \<le> k \<and> k < length bs \<longrightarrow> link_at env bs k \<and> pow_at env pow bs k"
    then have "\<forall>k. i + 1 \<le> k \<and> k < length bs2 \<longrightarrow> link_at env bs2 k \<and> pow_at env pow bs2 k"
      using L P len by auto
    with p2 show ok by simp
  qed
  have q3: "ok \<longrightarrow> out = [''Successfully validated chain of size '' @ str_int (int (length bs)) @ ''!'']"
    using p3 len by simp
  have q4: "\<not> ok \<longrightarrow> (\<exists>k. i \<le> k \<and> k < length bs \<and>
                (\<forall>j. i \<le> j \<and> j < k \<longrightarrow> link_at env bs j \<and> pow_at env pow bs j) \<and>
                (if \<not> link_at env bs k then out = mismatch_line (bs ! k)
                 else \<not> pow_at env pow bs k \<and> out = pow_line (bs ! k)) \<and>
                (\<forall>j. k < j \<and> j < length bs \<longrightarrow> bs' ! j = bs ! j))"
  proof
    assume "\<not> ok"
    from p4 [OF this] obtain k where k: "i + 1 \<le> k" "k < length bs2"
      and before: "\<forall>j. i + 1 \<le> j \<and> j < k \<longrightarrow> link_at env bs2 j \<and> pow_at env pow bs2 j"
      and at: "if \<not> link_at env bs2 k then out = mismatch_line (bs2 ! k)
                 else \<not> pow_at env pow bs2 k \<and> out = pow_line (bs2 ! k)"
      and after: "\<forall>j. k < j \<and> j < length bs2 \<longrightarrow> bs' ! j = bs2 ! j"
      by blast
    from k len have kb: "k < length bs" by simp
    have b': "\<forall>j. i \<le> j \<and> j < k \<longrightarrow> link_at env bs j \<and> pow_at env pow bs j"
    proof (intro allI impI)
      fix j assume j: "i \<le> j \<and> j < k"
      then have "j = i \<or> i + 1 \<le> j" by arith
      moreover from j kb have "j < length bs" by simp
      ultimately show "link_at env bs j \<and> pow_at env pow bs j"
        using before here j L P by auto
    qed
    have at': "if \<not> link_at env bs k then out = mismatch_line (bs ! k)
                 else \<not> pow_at env pow bs k \<and> out = pow_line (bs ! k)"
      using at L [OF kb] P [OF kb] N(1) [OF kb] N(2) [OF kb]
      by (cases "link_at env bs k") simp_all
    have after': "\<forall>j. k < j \<and> j < length bs \<longrightarrow> bs' ! j = bs ! j"
    proof (intro allI impI)
      fix j assume j: "k < j \<and> j < length bs"
      with k have "i < j" by simp
      with keep j have "bs2 ! j = bs ! j" by simp
      with after j len show "bs' ! j = bs ! j" by simp
    qed
    from k(1) have ik: "i \<le> k" by simp
    show "\<exists>k. i \<le> k \<and> k < length bs \<and>
                (\<forall>j. i \<le> j \<and> j < k \<longrightarrow> link_at env bs j \<and> pow_at env pow bs j) \<and>
                (if \<not> link_at env bs k then out = mismatch_line (bs ! k)
                 else \<not> pow_at env pow bs k \<and> out = pow_line (bs ! k)) \<and>
                (\<forall>j. k < j \<and> j < length bs \<longrightarrow> bs' ! j = bs ! j)"
    proof (intro exI [of _ k] conjI)
      show "i \<le> k" by (rule ik)
      show "k < length bs" by (rule kb)
      show "\<forall>j. i \<le> j \<and> j < k \<longrightarrow> link_at env bs j \<and> pow_at env pow bs j" by (rule b')
      show "if \<not> link_at env bs k then out = mismatch_line (bs ! k)
                 else \<not> pow_at env pow bs k \<and> out = pow_line (bs ! k)" by (rule at')
      show "\<forall>j. k < j \<and> j < length bs \<longrightarrow> bs' ! j = bs ! j" by (rule after')
    qed
  qed
  from q1 q2 q3 q4 show ?thesis
    unfolding loop_post_def by (simp only: prod.case)
qed

lemma loop_post_fail:
  assumes m: "map uncached bs' = map uncached bs"
    and i: "i < length bs"
    and keep: "\<And>j. i < j \<Longrightarrow> j < length bs \<Longrightarrow> bs' ! j = bs ! j"
    and at: "if \<not> link_at env bs i then out = mismatch_line (bs ! i)
             else \<not> pow_at env pow bs i \<and> out = pow_line (bs ! i)"
  shows "loop_post env pow i bs (False, out, bs')"
  unfolding loop_post_def prod.case
proof (intro conjI impI)
  show "map uncached bs' = map uncached bs" by (rule m)
next
  from at have "\<not> (link_at env bs i \<and> pow_at env pow bs i)"
    by (cases "link_at env bs i") simp_all
  with i have "\<not> (\<forall>k. i \<le> k \<and> k < length bs \<longrightarrow> link_at env bs k \<and> pow_at env pow bs k)"
    using le_refl [of i] by blast
  then show "False = (\<forall>k. i \<le> k \<and> k < length bs \<longrightarrow> link_at env bs k \<and> pow_at env pow bs k)"
    by (simp only: simp_thms)
next
  assume False
  then show "out = [''Successfully validated chain of size '' @ str_int (int (length bs)) @ ''!'']" ..
next
  have a: "\<forall>j. i \<le> j \<and> j < i \<longrightarrow> link_at env bs j \<and> pow_at env pow bs j" by auto
  from keep have b: "\<forall>j. i < j \<and> j < length bs \<longrightarrow> bs' ! j = bs ! j" by blast
  show "\<exists>k. i \<le> k \<and> k < length bs \<and>
                (\<forall>j. i \<le> j \<and> j < k \<longrightarrow> link_at env bs j \<and> pow_at env pow bs j) \<and>
                (if \<not> link_at env bs k then out = mismatch_line (bs ! k)
                 else \<not> pow_at env pow bs k \<and> out = pow_line (bs ! k)) \<and>
                (\<forall>j. k < j \<and> j < length bs \<longrightarrow> bs' ! j = bs ! j)"
  proof (intro exI [of _ i] conjI)
    show "i \<le> i" by (rule le_refl)
    show "i < length bs" by (rule i)
    show "\<forall>j. i \<le> j \<and> j < i \<longrightarrow> link_at env bs j \<and> pow_at env pow bs j" by (rule a)
    show "if \<not> link_at env bs i then out = mismatch_line (bs ! i)
             else \<not> pow_at env pow bs i \<and> out = pow_line (bs ! i)" by (rule at)
    show "\<forall>j. i < j \<and> j < length bs \<longrightarrow> bs' ! j = bs ! j" by (rule b)
  qed
qed

lemma loop_spec: "0 < i \<Longrightarrow> loop_post env pow i bs (validate_chain_loop env pow i bs)"
proof (induction n \<equiv> "length bs - i" arbitrary: i bs)
  case 0
  then have "\<not> i < length bs" by simp
  then show ?case by (rule loop_stop)
next
  case (Suc n)
  then have i: "i < length bs" "0 < i" by simp_all
  let ?bs1 = "bs[i - 1 := snd (hash env (bs ! (i - 1)))]"
  let ?bs2 = "?bs1[i := snd (hash env (bs ! i))]"
  have m1: "map uncached ?bs1 = map uncached bs" by simp
  from i have cur: "?bs1 ! i = bs ! i" by simp
  have m2: "map uncached ?bs2 = map uncached bs"
  proof -
    have "map uncached (?bs1[i := snd (hash env (?bs1 ! i))]) = map uncached ?bs1"
      by (rule map_uncached_update)
    with cur m1 show ?thesis by simp
  qed
  have k1: "\<And>j. i < j \<Longrightarrow> j < length bs \<Longrightarrow> ?bs1 ! j = bs ! j" by simp
  have k2: "\<And>j. i < j \<Longrightarrow> j < length bs \<Longrightarrow> ?bs2 ! j = bs ! j" by simp
  show ?case
  proof (cases "link_at env bs i")
    case False
    then have "if \<not> link_at env bs i then mismatch_line (bs ! i) = mismatch_line (bs ! i)
             else \<not> pow_at env pow bs i \<and> mismatch_line (bs ! i) = pow_line (bs ! i)"
      by simp
    from loop_post_fail [OF m1 i(1) k1 this]
    have "loop_post env pow i bs (False, mismatch_line (bs ! i), ?bs1)" by simp
    with loop_mismatch [OF i False] show ?thesis by simp
  next
    case link: True
    show ?thesis
    proof (cases "pow_at env pow bs i")
      case False
      with link have "if \<not> link_at env bs i then pow_line (bs ! i) = mismatch_line (bs ! i)
             else \<not> pow_at env pow bs i \<and> pow_line (bs ! i) = pow_line (bs ! i)"
        by simp
      from loop_post_fail [OF m2 i(1) k2 this]
      have "loop_post env pow i bs (False, pow_line (bs ! i), ?bs2)" by simp
      with loop_pow [OF i link False] show ?thesis by simp
    next
      case True
      obtain ok out bs' where r: "validate_chain_loop env pow (i + 1) ?bs2 = (ok, out, bs')"
        by (cases "validate_chain_loop env pow (i + 1) ?bs2") auto
      from Suc(2) have "n = length ?bs2 - (i + 1)" by simp
      from Suc(1) [OF this] r have "loop_post env pow (i + 1) ?bs2 (ok, out, bs')" by simp
      from loop_post_shift [OF m2 k2 link True this]
      have "loop_post env pow i bs (ok, out, bs')" by simp
      with loop_next [OF i link True] r show ?thesis by simp
    qed
  qed
qed

lemma validate_chain_loop_end:
  "\<not> i < length bs \<Longrightarrow> validate_chain_loop env pow i bs =
     (True, [''Successfully validated chain of size '' @ str_int (int (length bs)) @ ''!''], bs)"
  by (subst validate_chain_loop.simps) simp

lemmas chain_eval =
  validate_chain_def validate_chain_loop_end loop_mismatch loop_pow loop_next link_at_def
  pow_at_def mismatch_line_def pow_line_def

lemma demo_valid:
  "validate_chain toy_env demo_node =
     (True, [''Successfully validated chain of size 3!''], demo_node)"
  by (simp add: chain_eval eval_defs)

lemma tampered_invalid:
  "validate_chain toy_env tampered_node =
     (False, [''Blockchain validation failed at block 1: Previous block hash mismatch.''],
      tampered_node\<lparr>blocks := (blocks tampered_node)
         [0 := (blocks tampered_node ! 0)\<lparr>block_hash := ''ab''\<rparr>]\<rparr>)"
  by (simp add: chain_eval eval_defs tampered_node_def)

text \<open>
  C3. \<^verbatim>\<open>validate_chain\<close> returns \<open>True\<close> exactly when every block from index 1 on stores
  the digest of the block before it and has a digest that passes the difficulty predicate.
  When it returns \<open>False\<close> it has stopped at the first index that fails: it prints the
  hash-mismatch line if the linkage fails there and the proof-of-work line otherwise, and
  no later block has been hashed. The first block is only ever used as a predecessor, so a
  chain of one block is valid. The call has no outcome other than these: it cannot raise.
  It changes nothing in the node but stored digests.
\<close>

theorem validate_chain_correct:
  assumes "validate_chain env self = (ok, out, self')"
  shows
    "ok = (\<forall>i. 0 < i \<and> i < length (blocks self) \<longrightarrow>
             prev_block_hash (blocks self ! i) = fst (hash env (blocks self ! (i - 1))) \<and>
             proof_of_work_func self (fst (hash env (blocks self ! i)))) \<and>
     (ok \<longrightarrow> out = [''Successfully validated chain of size ''
                      @ str_int (int (length (blocks self))) @ ''!'']) \<and>
     (\<not> ok \<longrightarrow>
        (\<exists>i. 0 < i \<and> i < length (blocks self) \<and>
           (\<forall>j. 0 < j \<and> j < i \<longrightarrow>
              prev_block_hash (blocks self ! j) = fst (hash env (blocks self ! (j - 1))) \<and>
              proof_of_work_func self (fst (hash env (blocks self ! j)))) \<and>
           (if prev_block_hash (blocks self ! i) \<noteq> fst (hash env (blocks self ! (i - 1)))
            then out = [''Blockchain validation failed at block ''
                          @ str_int (num (blocks self ! i)) @ '': Previous block hash mismatch.'']
            else \<not> proof_of_work_func self (fst (hash env (blocks self ! i))) \<and>
                 out = [''Blockchain validation failed at block ''
                          @ str_int (num (blocks self ! i)) @ '': Invalid proof-of-work.'']) \<and>
           (\<forall>j. i < j \<and> j < length (blocks self) \<longrightarrow> blocks self' ! j = blocks self ! j))) \<and>
     (length (blocks self) \<le> 1 \<longrightarrow> ok) \<and>
     map (\<lambda>b. b\<lparr>block_hash := []\<rparr>) (blocks self') = map (\<lambda>b. b\<lparr>block_hash := []\<rparr>) (blocks self) \<and>
     self' = self\<lparr>blocks := blocks self'\<rparr>"
proof -
  let ?pow = "proof_of_work_func self"
  let ?bs = "blocks self"
  from assms have r: "validate_chain_loop env ?pow 1 ?bs = (ok, out, blocks self')"
    and s: "self' = self\<lparr>blocks := blocks self'\<rparr>"
    by (auto simp: validate_chain_def split: prod.splits)
  have "loop_post env ?pow 1 ?bs (validate_chain_loop env ?pow 1 ?bs)"
    by (rule loop_spec) simp
  with r have post: "loop_post env ?pow 1 ?bs (ok, out, blocks self')" by simp
  have u: "uncached = (\<lambda>b. b\<lparr>block_hash := []\<rparr>)"
    by (rule ext) (simp add: uncached_def)
  from post have p1: "map uncached (blocks self') = map uncached ?bs"
    and p2: "ok = (\<forall>k. 1 \<le> k \<and> k < length ?bs \<longrightarrow> link_at env ?bs k \<and> pow_at env ?pow ?bs k)"
    and p3: "ok \<longrightarrow> out = [''Successfully validated chain of size '' @ str_int (int (length ?bs)) @ ''!'']"
    and p4: "\<not> ok \<longrightarrow> (\<exists>k. 1 \<le> k \<and> k < length ?bs \<and>
                (\<forall>j. 1 \<le> j \<and> j < k \<longrightarrow> link_at env ?bs j \<and> pow_at env ?pow ?bs j) \<and>
                (if \<not> link_at env ?bs k then out = mismatch_line (?bs ! k)
                 else \<not> pow_at env ?pow ?bs k \<and> out = pow_line (?bs ! k)) \<and>
                (\<forall>j. k < j \<and> j < length ?bs \<longrightarrow> blocks self' ! j = ?bs ! j))"
    unfolding loop_post_def prod.case by blast+
  from p2 have "length ?bs \<le> 1 \<longrightarrow> ok" by auto
  with p1 p2 p3 p4 s show ?thesis
    unfolding u link_at_def pow_at_def mismatch_line_def pow_line_def
    by (simp only: Suc_le_eq One_nat_def simp_thms)
qed

theorem validate_chain_correct_witness:
  "validate_chain toy_env demo_node =
     (True, [''Successfully validated chain of size 3!''], demo_node) \<and>
   prev_block_hash (blocks demo_node ! 1) = fst (hash toy_env (blocks demo_node ! 0)) \<and>
   proof_of_work_func demo_node (fst (hash toy_env (blocks demo_node ! 1))) \<and>
   prev_block_hash (blocks demo_node ! 2) = fst (hash toy_env (blocks demo_node ! 1)) \<and>
   proof_of_work_func demo_node (fst (hash toy_env (blocks demo_node ! 2))) \<and>
   validate_chain toy_env tampered_node =
     (False, [''Blockchain validation failed at block 1: Previous block hash mismatch.''],
      tampered_node\<lparr>blocks := (blocks tampered_node)
         [0 := (blocks tampered_node ! 0)\<lparr>block_hash := ''ab''\<rparr>]\<rparr>) \<and>
   \<not> (\<forall>i. 0 < i \<and> i < length (blocks tampered_node) \<longrightarrow>
          prev_block_hash (blocks tampered_node ! i)
            = fst (hash toy_env (blocks tampered_node ! (i - 1))) \<and>
          proof_of_work_func tampered_node (fst (hash toy_env (blocks tampered_node ! i))))"
proof -
  have len: "length (blocks demo_node) = 3"
    by (simp add: demo_node_def)
  from validate_chain_correct [OF demo_valid]
  have all: "\<And>i. 0 < i \<Longrightarrow> i < length (blocks demo_node) \<Longrightarrow>
             prev_block_hash (blocks demo_node ! i) = fst (hash toy_env (blocks demo_node ! (i - 1))) \<and>
             proof_of_work_func demo_node (fst (hash toy_env (blocks demo_node ! i)))"
    by blast
  from validate_chain_correct [OF tampered_invalid]
  have no: "\<not> (\<forall>i. 0 < i \<and> i < length (blocks tampered_node) \<longrightarrow>
          prev_block_hash (blocks tampered_node ! i)
            = fst (hash toy_env (blocks tampered_node ! (i - 1))) \<and>
          proof_of_work_func tampered_node (fst (hash toy_env (blocks tampered_node ! i))))"
    by blast
  from all [of 1] all [of 2] len no demo_valid tampered_invalid show ?thesis
    by simp
qed

section \<open>Conservation of balances\<close>

lemma floor_log2: "2 powi k \<le> x \<Longrightarrow> x < 2 powi (k + 1) \<Longrightarrow> \<lfloor>log 2 x\<rfloor> = k" for x :: real
proof -
  assume a: "2 powi k \<le> x" and b: "x < 2 powi (k + 1)"
  have "(0::real) < 2 powi k" by simp
  with a have pos: "0 < x" by linarith
  have "(2::real) powr (of_int k) = 2 powi k"
    by (simp add: powr_real_of_int')
  moreover have "(2::real) powr (of_int (k + 1)) = 2 powi (k + 1)"
    by (rule powr_real_of_int') simp_all
  then have "(2::real) powr (of_int k + 1) = 2 powi (k + 1)"
    by simp
  ultimately show ?thesis using a b pos
    by (simp add: floor_log_eq_powr_iff)
qed

lemmas ieee_eval =
  ieee_env_def round_binary64_def round_half_even_def float_0_2_def
  floor_log2 [where k = "-3"] floor_log2 [where k = "-2"] floor_log2 [where k = "-1"]
  floor_log2 [where k = 0] floor_log2 [where k = 1] floor_log2 [where k = 2]

lemma apply_transaction_exact:
  "exact_step env a b t \<Longrightarrow> apply_transaction env a b t = b + delta a t"
  by (auto simp: exact_step_def apply_transaction_def delta_def Let_def)

lemma foldl_exact:
  "exact_from env a b ts \<Longrightarrow> foldl (apply_transaction env a) b ts = b + sum_list (map (delta a) ts)"
proof (induction ts arbitrary: b)
  case Nil
  then show ?case by simp
next
  case (Cons t ts)
  then have s: "exact_step env a b t"
    and r: "exact_from env a (apply_transaction env a b t) ts" by simp_all
  from Cons.IH [OF r] apply_transaction_exact [OF s] show ?case by simp
qed

lemma foldl_blocks:
  "foldl (\<lambda>balance block. foldl f balance (transactions block)) b bs
     = foldl f b (concat (map transactions bs))"
  by (induction bs arbitrary: b) simp_all

lemma get_balance_concat:
  "get_balance env self a = foldl (apply_transaction env a) 0 (all_transactions self)"
  by (simp add: get_balance_def all_transactions_def foldl_blocks)

lemma get_balance_exact:
  "rounding_free env self a \<Longrightarrow> get_balance env self a = sum_list (map (delta a) (all_transactions self))"
  using foldl_exact [of env a 0 "all_transactions self"]
  by (simp add: rounding_free_def get_balance_concat)

lemma sum_delta_swap:
  "finite A \<Longrightarrow> (\<Sum>a\<in>A. sum_list (map (delta a) ts)) = sum_list (map (\<lambda>t. \<Sum>a\<in>A. delta a t) ts)"
  by (induction ts) (simp_all add: sum.distrib)

lemma sum_delta_zero:
  assumes "finite A" "sender_address t \<in> A" "recipient_address t \<in> A"
  shows "(\<Sum>a\<in>A. delta a t) = 0"
proof -
  have "(\<Sum>a\<in>A. delta a t) =
        (\<Sum>a\<in>A. if recipient_address t = a then tx_value t else 0)
        - (\<Sum>a\<in>A. if sender_address t = a then tx_value t else 0)"
    by (simp add: delta_def sum_subtractf)
  with assms show ?thesis by simp
qed

lemma addresses_cover:
  "t \<in> set (all_transactions self) \<Longrightarrow>
     sender_address t \<in> set (addresses self) \<and> recipient_address t \<in> set (addresses self)"
  by (auto simp: addresses_def)

lemmas balance_eval =
  get_balance_def apply_transaction_def addresses_def all_transactions_def
  Transaction_init_def alice_def bob_def

lemma float_run: "node_after ieee_env alice 1 float_calls = Some float_node"
  by (simp add: eval_defs ieee_eval float_calls_def float_node_def)

text \<open>
  C8, as stated, fails on floats. The miner of the run \<open>float_calls\<close> earns two rewards of
  2.0 and twice sends the double 0.2: the balances are -4.0 for the system address,
  3.5999999999999996 for the miner and 0.4 for the recipient. Their sum is not 0, neither
  as an exact sum nor added up as floats.
\<close>

theorem balance_conservation_counterexample:
  "node_after ieee_env alice 1 float_calls = Some float_node \<and>
   addresses float_node = [PublicKey 0 0, alice, bob] \<and>
   get_balance ieee_env float_node (PublicKey 0 0) = - 4 \<and>
   get_balance ieee_env float_node alice = 2026619832316723 / 562949953421312 \<and>
   get_balance ieee_env float_node bob = 3602879701896397 / 9007199254740992 \<and>
   sum_list (map (get_balance ieee_env float_node) (addresses float_node)) \<noteq> 0 \<and>
   foldl (float_add ieee_env) 0 (map (get_balance ieee_env float_node) (addresses float_node))
     \<noteq> 0"
proof -
  have a: "addresses float_node = [PublicKey 0 0, alice, bob]"
    by (simp add: balance_eval float_node_def)
  have s: "get_balance ieee_env float_node (PublicKey 0 0) = - 4"
    by (simp add: balance_eval float_node_def ieee_eval)
  have m: "get_balance ieee_env float_node alice = 2026619832316723 / 562949953421312"
    by (simp add: balance_eval float_node_def ieee_eval)
  have b: "get_balance ieee_env float_node bob = 3602879701896397 / 9007199254740992"
    by (simp add: balance_eval float_node_def ieee_eval)
  have l: "map (get_balance ieee_env float_node) (addresses float_node) =
             [- 4, 2026619832316723 / 562949953421312, 3602879701896397 / 9007199254740992]"
    by (simp only: a s m b list.map)
  have "sum_list [- 4, 2026619832316723 / 562949953421312,
                  3602879701896397 / 9007199254740992 :: real] \<noteq> 0"
    by simp
  then have e: "sum_list (map (get_balance ieee_env float_node) (addresses float_node)) \<noteq> 0"
    unfolding l .
  have "foldl (float_add ieee_env) 0
             [- 4, 2026619832316723 / 562949953421312, 3602879701896397 / 9007199254740992] \<noteq> 0"
    by (simp add: ieee_eval floor_log2 [where k = "-52"])
  then have f: "foldl (float_add ieee_env) 0
             (map (get_balance ieee_env float_node) (addresses float_node)) \<noteq> 0"
    unfolding l .
  show ?thesis
    by (intro conjI) (rule float_run a s m b e f)+
qed

text \<open>
  C8, amended. On every chain on which \<^verbatim>\<open>get_balance\<close> computes the balance of each
  address without rounding, the balances of all addresses that occur in the chain, the
  system address included, add up to 0.
\<close>

theorem balance_conservation:
  assumes "\<forall>a \<in> set (addresses self). rounding_free env self a"
  shows "sum_list (map (get_balance env self) (addresses self)) = 0"
proof -
  let ?A = "set (addresses self)"
  let ?ts = "all_transactions self"
  have "distinct (addresses self)" by (simp add: addresses_def)
  then have "sum_list (map (get_balance env self) (addresses self)) = (\<Sum>a\<in>?A. get_balance env self a)"
    by (rule sum_list_distinct_conv_sum_set)
  also from assms have "\<dots> = (\<Sum>a\<in>?A. sum_list (map (delta a) ?ts))"
    by (intro sum.cong refl) (simp add: get_balance_exact)
  also have "\<dots> = sum_list (map (\<lambda>t. \<Sum>a\<in>?A. delta a t) ?ts)"
    by (rule sum_delta_swap) simp
  also have "\<dots> = sum_list (map (\<lambda>t. 0) ?ts)"
    by (intro arg_cong [where f = sum_list] map_cong refl sum_delta_zero)
       (simp_all add: addresses_cover)
  also have "\<dots> = 0" by simp
  finally show ?thesis .
qed

theorem balance_conservation_witness:
  "addresses demo_node = [PublicKey 0 0, alice, bob] \<and>
   rounding_free ieee_env demo_node (PublicKey 0 0) \<and>
   rounding_free ieee_env demo_node alice \<and>
   rounding_free ieee_env demo_node bob \<and>
   get_balance ieee_env demo_node (PublicKey 0 0) = - 4 \<and>
   get_balance ieee_env demo_node alice = 3 \<and>
   get_balance ieee_env demo_node bob = 1 \<and>
   sum_list (map (get_balance ieee_env demo_node) (addresses demo_node)) = 0"
proof -
  have a: "addresses demo_node = [PublicKey 0 0, alice, bob]"
    by (simp add: balance_eval demo_node_def)
  have r: "rounding_free ieee_env demo_node (PublicKey 0 0)"
    "rounding_free ieee_env demo_node alice" "rounding_free ieee_env demo_node bob"
    by (simp_all add: rounding_free_def exact_step_def balance_eval demo_node_def ieee_eval)
  have g: "get_balance ieee_env demo_node (PublicKey 0 0) = - 4"
    "get_balance ieee_env demo_node alice = 3" "get_balance ieee_env demo_node bob = 1"
    by (simp_all add: balance_eval demo_node_def ieee_eval)
  from a r have "\<forall>a \<in> set (addresses demo_node). rounding_free ieee_env demo_node a"
    by simp
  note c = balance_conservation [OF this]
  show ?thesis
    by (intro conjI) (rule a r g c)+
qed

end
